theory Spec2Isabelle
  imports Main "HOL-Library.Word"
begin

unbundle bit_operations_syntax

section \<open>Common types\<close>

text \<open>
  Python exceptions are values of \<open>error\<close>; a computation that may raise returns
  \<open>error + 'a\<close> with \<open>Inl\<close> for the exception. Python integers are unbounded: \<open>int\<close>.
  Byte strings (the payload of \<^verbatim>\<open>core.Data\<close>) are lists of 8-bit words.
\<close>

datatype error =
    EOFError | IndexError | ZeroDivisionError | DecodeError
  | RequestError | FileNotFoundError | RecursionError

type_synonym byte = "8 word"
type_synonym bytes = "byte list"

section \<open>Versioned asset cache and fetcher: \<^verbatim>\<open>game_data_getter.py\<close>\<close>

text \<open>
  \<^verbatim>\<open>core.CountryCodeType\<close> is not among the sources; the getter only compares its country
  code with the four members \<open>EN\<close>, \<open>JP\<close>, \<open>KR\<close>, \<open>TW\<close>. \<open>OtherCC\<close> stands for any code that
  equals none of them.
\<close>

datatype CountryCodeType = EN | JP | KR | TW | OtherCC

text \<open>
  The object state of \<^verbatim>\<open>GameDataGetter\<close>. \<open>langs\<close> is the value of
  \<^verbatim>\<open>core.CountryCode.get_langs()\<close> (not among the sources), taken as a parameter.
\<close>

record GameDataGetter =
  url :: string
  lang :: string
  cc :: CountryCodeType
  langs :: "string list"
  all_versions :: "string list"
  latest_version :: "string option"

text \<open>
  The world the fetcher acts on. A \<^verbatim>\<open>core.Path\<close> is the list of its components; \<open>files\<close>
  maps the path of each existing file to its content, \<open>dirs\<close> holds the directories made
  by \<^verbatim>\<open>generate_dirs\<close>, \<open>requests\<close> is the list of URLs requested so far (oldest first)
  and \<open>displayed\<close> the messages printed.
\<close>

type_synonym path = "string list"

datatype message = Downloading string string string

record world =
  files :: "path \<Rightarrow> bytes option"
  dirs :: "path set"
  requests :: "string list"
  displayed :: "message list"

text \<open>
  The remote side: what a GET of a URL answers, given the requests made before it.
  \<^verbatim>\<open>requests.get\<close> either raises (\<open>Inl\<close>) or returns a response.
\<close>

record Response =
  status_code :: int
  content :: bytes

type_synonym network = "string list \<Rightarrow> string \<Rightarrow> error + Response"

definition get_latest_version :: "string list \<Rightarrow> CountryCodeType \<Rightarrow> string option" where
  "get_latest_version versions c =
     (let length = length versions in
      if c = EN \<and> length \<ge> 1 then Some (versions ! 0)
      else if c = JP \<and> length \<ge> 2 then Some (versions ! 1)
      else if c = KR \<and> length \<ge> 3 then Some (versions ! 2)
      else if c = TW \<and> length \<ge> 4 then Some (versions ! 3)
      else None)"

text \<open>
  \<^verbatim>\<open>__init__\<close>, with the configuration strings, the resolved country code and the version
  list that \<^verbatim>\<open>get_versions\<close> fetched taken as arguments.
\<close>

definition GameDataGetter_init ::
  "string \<Rightarrow> string \<Rightarrow> CountryCodeType \<Rightarrow> string list \<Rightarrow> string list \<Rightarrow> GameDataGetter" where
  "GameDataGetter_init u l c ls versions =
     \<lparr>url = u, lang = l, cc = c, langs = ls, all_versions = versions,
      latest_version = get_latest_version versions c\<rparr>"

definition get_packname :: "GameDataGetter \<Rightarrow> string \<Rightarrow> string" where
  "get_packname g packname =
     (if packname \<noteq> ''resLocal'' then packname
      else if cc g \<noteq> EN then packname
      else if lang g \<in> set (langs g) then packname @ ''_'' @ lang g
      else packname)"

definition get_file ::
  "network \<Rightarrow> GameDataGetter \<Rightarrow> string \<Rightarrow> string \<Rightarrow> world \<Rightarrow> error + (bytes option \<times> world)" where
  "get_file net g pack_name file_name w =
     (let pack_name = get_packname g pack_name in
      case latest_version g of
        None \<Rightarrow> Inr (None, w)
      | Some version \<Rightarrow>
          (let u = url g @ version @ ''/'' @ pack_name @ ''/'' @ file_name in
           case net (requests w) u of
             Inl e \<Rightarrow> Inl e
           | Inr response \<Rightarrow>
               (let w1 = w\<lparr>requests := requests w @ [u]\<rparr> in
                if status_code response \<noteq> 200 then Inr (None, w1)
                else Inr (Some (content response), w1))))"

definition get_file_path :: "GameDataGetter \<Rightarrow> string \<Rightarrow> string \<Rightarrow> world \<Rightarrow> path option \<times> world" where
  "get_file_path g pack_name file_name w =
     (case latest_version g of
        None \<Rightarrow> (None, w)
      | Some version \<Rightarrow>
          (let pack_name = get_packname g pack_name;
               d = [''game_data'', version, pack_name]
           in (Some (d @ [file_name]), w\<lparr>dirs := insert d (dirs w)\<rparr>)))"

text \<open>
  Modelled from the spec: \<^verbatim>\<open>core.Path.exists\<close> is not among the sources; a cache entry exists
  when a file is stored under its path.
\<close>

definition path_exists :: "path \<Rightarrow> world \<Rightarrow> bool" where
  "path_exists p w = (files w p \<noteq> None)"

text \<open>
  Modelled from the spec: \<^verbatim>\<open>core.Path.read\<close> is not among the sources; it returns the bytes
  stored under the path and raises when there is no such file.
\<close>

definition path_read :: "path \<Rightarrow> world \<Rightarrow> error + bytes" where
  "path_read p w = (case files w p of None \<Rightarrow> Inl FileNotFoundError | Some b \<Rightarrow> Inr b)"

text \<open>
  Modelled from the spec: \<^verbatim>\<open>core.Data.to_file\<close> is not among the sources; it persists the
  bytes to the cache location.
\<close>

definition to_file :: "bytes \<Rightarrow> path \<Rightarrow> world \<Rightarrow> world" where
  "to_file b p w = w\<lparr>files := (files w)(p \<mapsto> b)\<rparr>"

definition save_file ::
  "network \<Rightarrow> GameDataGetter \<Rightarrow> string \<Rightarrow> string \<Rightarrow> world \<Rightarrow> error + (bytes option \<times> world)" where
  "save_file net g pack_name file_name w =
     (let pack_name = get_packname g pack_name in
      case get_file net g pack_name file_name w of
        Inl e \<Rightarrow> Inl e
      | Inr (None, w1) \<Rightarrow> Inr (None, w1)
      | Inr (Some data, w1) \<Rightarrow>
          (case get_file_path g pack_name file_name w1 of
             (None, w2) \<Rightarrow> Inr (None, w2)
           | (Some p, w2) \<Rightarrow> Inr (Some data, to_file data p w2)))"

definition is_downloaded :: "GameDataGetter \<Rightarrow> string \<Rightarrow> string \<Rightarrow> world \<Rightarrow> bool \<times> world" where
  "is_downloaded g pack_name file_name w =
     (let pack_name = get_packname g pack_name in
      case get_file_path g pack_name file_name w of
        (None, w1) \<Rightarrow> (False, w1)
      | (Some p, w1) \<Rightarrow> (path_exists p w1, w1))"

text \<open>
  \<^verbatim>\<open>download\<close> calls itself. Its first argument is the number of stack frames the
  interpreter still allows: at 0 the call raises \<open>RecursionError\<close>, as Python does when
  the recursion limit is reached (with \<open>retries \<le> 0\<close> and a remote side that keeps
  answering without data the source never stops by itself).
\<close>

fun download ::
  "nat \<Rightarrow> network \<Rightarrow> GameDataGetter \<Rightarrow> string \<Rightarrow> string \<Rightarrow> int \<Rightarrow> bool \<Rightarrow> world
     \<Rightarrow> error + (bytes option \<times> world)" where
  "download 0 net g pack_name file_name retries display_text w = Inl RecursionError"
| "download (Suc depth) net g pack_name file_name retries display_text w =
     (let retries = retries - 1;
          pack_name = get_packname g pack_name
      in case is_downloaded g pack_name file_name w of
           (True, w1) \<Rightarrow>
             (case get_file_path g pack_name file_name w1 of
                (None, w2) \<Rightarrow> Inr (None, w2)
              | (Some p, w2) \<Rightarrow>
                  (case path_read p w2 of Inl e \<Rightarrow> Inl e | Inr b \<Rightarrow> Inr (Some b, w2)))
         | (False, w1) \<Rightarrow>
             if retries = 0 then Inr (None, w1)
             else
               (case latest_version g of
                  None \<Rightarrow> Inr (None, w1)
                | Some version \<Rightarrow>
                    (let w2 = (if display_text
                               then w1\<lparr>displayed := displayed w1 @ [Downloading file_name pack_name version]\<rparr>
                               else w1)
                     in case save_file net g pack_name file_name w2 of
                          Inl e \<Rightarrow> Inl e
                        | Inr (None, w3) \<Rightarrow> download depth net g pack_name file_name retries display_text w3
                        | Inr (Some data, w3) \<Rightarrow> Inr (Some data, w3))))"

text \<open>
  \<^verbatim>\<open>core.thread_run_many\<close> is not among the sources. It is a parameter here: any function
  from the dispatched tasks and the world before them to the world once all of them have
  finished (the caller blocks until then). Nothing is assumed about the order in which
  it runs or completes the tasks.
\<close>

type_synonym task = "world \<Rightarrow> error + (bytes option \<times> world)"
type_synonym thread_run_many = "task list \<Rightarrow> world \<Rightarrow> world"

text \<open>The second loop of \<^verbatim>\<open>download_all\<close>: re-read every file from the cache.\<close>

fun read_all ::
  "GameDataGetter \<Rightarrow> string \<Rightarrow> string list \<Rightarrow> world
     \<Rightarrow> error + ((string \<times> bytes) option list \<times> world)" where
  "read_all g pack_name [] w = Inr ([], w)"
| "read_all g pack_name (file_name # file_names) w =
     (case get_file_path g pack_name file_name w of
        (None, w1) \<Rightarrow>
          (case read_all g pack_name file_names w1 of
             Inl e \<Rightarrow> Inl e
           | Inr (data_list, w2) \<Rightarrow> Inr (None # data_list, w2))
      | (Some p, w1) \<Rightarrow>
          if \<not> path_exists p w1 then
            (case read_all g pack_name file_names w1 of
               Inl e \<Rightarrow> Inl e
             | Inr (data_list, w2) \<Rightarrow> Inr (None # data_list, w2))
          else
            (case path_read p w1 of
               Inl e \<Rightarrow> Inl e
             | Inr b \<Rightarrow>
                 (case read_all g pack_name file_names w1 of
                    Inl e \<Rightarrow> Inl e
                  | Inr (data_list, w2) \<Rightarrow> Inr (Some (file_name, b) # data_list, w2))))"

definition download_all ::
  "thread_run_many \<Rightarrow> nat \<Rightarrow> network \<Rightarrow> GameDataGetter \<Rightarrow> string \<Rightarrow> string list \<Rightarrow> bool \<Rightarrow> world
     \<Rightarrow> error + ((string \<times> bytes) option list \<times> world)" where
  "download_all trm depth net g pack_name file_names display_text w =
     (let pack_name = get_packname g pack_name;
          tasks = map (\<lambda>file_name. download depth net g pack_name file_name 2 display_text) file_names;
          w1 = trm tasks w
      in read_all g pack_name file_names w1)"

text \<open>
  The cache entry of a file of a pack for the resolved version: the content of the file
  \<^verbatim>\<open>game_data/{version}/{pack}/{file}\<close>, if there is one.
\<close>

definition cache_entry :: "GameDataGetter \<Rightarrow> string \<Rightarrow> string \<Rightarrow> world \<Rightarrow> bytes option" where
  "cache_entry g pack_name file_name w =
     (case latest_version g of
        None \<Rightarrow> None
      | Some version \<Rightarrow> files w [''game_data'', version, get_packname g pack_name, file_name])"

section \<open>Bounded field editor: \<^verbatim>\<open>dialog_creator.py\<close>\<close>

subsection \<open>Console, configuration and Python built-ins\<close>

text \<open>
  The console (\<^verbatim>\<open>color.ColoredInput\<close>, \<^verbatim>\<open>color.ColoredText\<close>, the locale manager) is not among
  the sources. It is the explicit state \<open>console\<close>: \<open>pending\<close> holds the lines the user is
  still going to type, \<open>shown\<close> what has been printed: a prompt with its dialog key and
  parameters, a menu with its dialog key and entries, or a \<^verbatim>\<open>value_changed\<close> message.
  Looking a key up in the locale and formatting it are left out: an event records the
  key and the parameters as the code passes them.
\<close>

datatype param = IntP int | StrP string

datatype event =
    Prompt string "(string \<times> param) list"
  | Menu string "string list"
  | Changed string int

record console =
  pending :: "string list"
  shown :: "event list"

text \<open>
  Modelled from the spec: \<^verbatim>\<open>color.ColoredInput.get\<close> is not among the sources; it requests
  a line of text given a prompt and returns the raw line. At the end of the input Python's
  \<^verbatim>\<open>input\<close> raises \<open>EOFError\<close>.
\<close>

definition ColoredInput_get ::
  "string \<Rightarrow> (string \<times> param) list \<Rightarrow> console \<Rightarrow> error + (string \<times> console)" where
  "ColoredInput_get dialog perameters c =
     (case pending c of
        [] \<Rightarrow> Inl EOFError
      | l # ls \<Rightarrow> Inr (l, c\<lparr>pending := ls, shown := shown c @ [Prompt dialog perameters]\<rparr>))"

text \<open>
  A Python \<^verbatim>\<open>str\<close> is the list of its code points. The model covers the strings whose code
  points are all below 256: one \<open>char\<close> stands for one code point.

  Python's \<^verbatim>\<open>int(s)\<close> on such a string. Whitespace at both ends is skipped: the ASCII
  characters tab, line feed, vertical tab, form feed, carriage return and space, and the
  two other whitespace code points below 256, U+0085 and U+00A0, which \<^verbatim>\<open>int\<close> turns into
  spaces first. (The separators U+001C to U+001F are not skipped.) One sign is allowed,
  then decimal digits follow, where single underscores may stand between digits. A literal
  of more than \<open>int_max_str_digits\<close> digits is refused: the interpreter's limit
  \<^verbatim>\<open>sys.int_max_str_digits\<close>, 4300 unless reconfigured. \<open>None\<close> is \<^verbatim>\<open>ValueError\<close>.
\<close>

definition is_space :: "char \<Rightarrow> bool" where
  "is_space ch = (of_char ch \<in> {9, 10, 11, 12, 13, 32, 133, 160 :: nat})"

definition strip :: "string \<Rightarrow> string" where
  "strip s = rev (dropWhile is_space (rev (dropWhile is_space s)))"

definition int_max_str_digits :: nat where
  "int_max_str_digits = 4300"

definition digit_of :: "char \<Rightarrow> int option" where
  "digit_of ch =
     (let n = (of_char ch :: nat) in if 48 \<le> n \<and> n \<le> 57 then Some (int n - 48) else None)"

fun py_digits :: "int \<Rightarrow> string \<Rightarrow> int option" where
  "py_digits acc [] = Some acc"
| "py_digits acc [ch] = (case digit_of ch of None \<Rightarrow> None | Some d \<Rightarrow> Some (10 * acc + d))"
| "py_digits acc (ch # ch' # s) =
     (if ch = CHR ''_'' then
        (case digit_of ch' of None \<Rightarrow> None | Some d \<Rightarrow> py_digits (10 * acc + d) s)
      else
        (case digit_of ch of None \<Rightarrow> None | Some d \<Rightarrow> py_digits (10 * acc + d) (ch' # s)))"

definition py_unsigned :: "string \<Rightarrow> int option" where
  "py_unsigned s =
     (case s of
        [] \<Rightarrow> None
      | ch # s' \<Rightarrow>
          (case digit_of ch of
             None \<Rightarrow> None
           | Some d \<Rightarrow>
               if length (filter (\<lambda>ch. digit_of ch \<noteq> None) s) > int_max_str_digits then None
               else py_digits d s'))"

definition py_int :: "string \<Rightarrow> int option" where
  "py_int s =
     (case strip s of
        [] \<Rightarrow> None
      | ch # s' \<Rightarrow>
          if ch = CHR ''-'' then map_option uminus (py_unsigned s')
          else if ch = CHR ''+'' then py_unsigned s'
          else py_unsigned (ch # s'))"

text \<open>\<^verbatim>\<open>s.split(sep)\<close> for a separator of one character.\<close>

fun py_split :: "char \<Rightarrow> string \<Rightarrow> string list" where
  "py_split sep [] = [[]]"
| "py_split sep (ch # s) =
     (if ch = sep then [] # py_split sep s
      else (case py_split sep s of [] \<Rightarrow> [[ch]] | t # ts \<Rightarrow> (ch # t) # ts))"

text \<open>
  List indexing \<^verbatim>\<open>xs[i]\<close> and item assignment \<^verbatim>\<open>xs[i] = v\<close>: a negative index counts from
  the end, an index out of range raises \<open>IndexError\<close>.
\<close>

definition py_index :: "nat \<Rightarrow> int \<Rightarrow> nat option" where
  "py_index len i =
     (if 0 \<le> i \<and> i < int len then Some (nat i)
      else if - int len \<le> i \<and> i < 0 then Some (nat (int len + i))
      else None)"

definition py_get :: "'a list \<Rightarrow> int \<Rightarrow> error + 'a" where
  "py_get xs i =
     (case py_index (length xs) i of None \<Rightarrow> Inl IndexError | Some k \<Rightarrow> Inr (xs ! k))"

definition py_set :: "'a list \<Rightarrow> int \<Rightarrow> 'a \<Rightarrow> error + 'a list" where
  "py_set xs i v =
     (case py_index (length xs) i of None \<Rightarrow> Inl IndexError | Some k \<Rightarrow> Inr (xs[k := v]))"

subsection \<open>\<^verbatim>\<open>IntInput\<close>\<close>

text \<open>
  The fields \<^verbatim>\<open>signed\<close>, \<^verbatim>\<open>max\<close>, \<^verbatim>\<open>min\<close> and \<^verbatim>\<open>default\<close> carry the prefix \<open>ii_\<close>. The value
  of the configuration key \<^verbatim>\<open>DISABLE_MAXES\<close> (read from \<^verbatim>\<open>io.config\<close>, not among the sources)
  is the argument \<open>disable_maxes\<close>.
\<close>

record IntInput =
  ii_signed :: bool
  ii_max :: int
  ii_min :: int
  ii_default :: "int option"

definition get_max_value :: "bool \<Rightarrow> int option \<Rightarrow> bool \<Rightarrow> int" where
  "get_max_value disable_maxes mx is_signed =
     (let max_int = (if is_signed then 2 ^ 31 - 1 else 2 ^ 32 - 1) in
      case mx of
        None \<Rightarrow> max_int
      | Some m \<Rightarrow> if disable_maxes then max_int else min m max_int)"

definition IntInput_init :: "bool \<Rightarrow> int option \<Rightarrow> int \<Rightarrow> int option \<Rightarrow> bool \<Rightarrow> IntInput" where
  "IntInput_init disable_maxes mx mn dflt is_signed =
     \<lparr>ii_signed = is_signed, ii_max = get_max_value disable_maxes mx is_signed,
      ii_min = mn, ii_default = dflt\<rparr>"

definition clamp_value :: "IntInput \<Rightarrow> int \<Rightarrow> int" where
  "clamp_value self v = max (min v (ii_max self)) (ii_min self)"

definition IntInput_get_input ::
  "IntInput \<Rightarrow> string \<Rightarrow> (string \<times> param) list \<Rightarrow> console
     \<Rightarrow> error + ((int option \<times> string) \<times> console)" where
  "IntInput_get_input self dialog perameters c =
     (case ColoredInput_get dialog perameters c of
        Inl e \<Rightarrow> Inl e
      | Inr (user_input, c1) \<Rightarrow>
          if user_input = [] \<and> ii_default self \<noteq> None then Inr ((ii_default self, user_input), c1)
          else
            (case py_int user_input of
               None \<Rightarrow> Inr ((None, user_input), c1)
             | Some user_input_i \<Rightarrow> Inr ((Some (clamp_value self user_input_i), user_input), c1)))"

function IntInput_get_input_while ::
  "IntInput \<Rightarrow> string \<Rightarrow> (string \<times> param) list \<Rightarrow> console \<Rightarrow> error + (int option \<times> console)" where
  "IntInput_get_input_while self dialog perameters c =
     (case IntInput_get_input self dialog perameters c of
        Inl e \<Rightarrow> Inl e
      | Inr ((int_val, user_input), c1) \<Rightarrow>
          if int_val \<noteq> None then Inr (int_val, c1)
          else if user_input = ''q'' then Inr (None, c1)
          else IntInput_get_input_while self dialog perameters c1)"
  by pat_completeness auto
termination
  by (relation "measure (\<lambda>(self, dialog, perameters, c). length (pending c))")
     (auto simp: IntInput_get_input_def ColoredInput_get_def
           split: list.splits if_splits option.splits)

declare IntInput_get_input_while.simps [simp del]

definition IntInput_get_input_locale_while ::
  "IntInput \<Rightarrow> string \<Rightarrow> (string \<times> param) list \<Rightarrow> console \<Rightarrow> error + (int option \<times> console)" where
  "IntInput_get_input_locale_while self localization_key perameters c =
     IntInput_get_input_while self localization_key perameters c"

subsection \<open>\<^verbatim>\<open>ChoiceInput\<close>\<close>

text \<open>
  A \<^verbatim>\<open>ChoiceInput\<close> keeps the list objects it was constructed with, and
  \<^verbatim>\<open>get_input_locale\<close> appends to \<^verbatim>\<open>self.strings\<close> in place: the caller sees the longer list,
  and so does \<^verbatim>\<open>self.items\<close> when both are one list object. The lists of strings therefore
  live in a store, and the fields \<open>items\<close> and \<open>strings\<close> hold references into it.
\<close>

type_synonym ref = nat
type_synonym store = "ref \<Rightarrow> string list"

record ChoiceInput =
  items :: ref
  strings :: ref
  ints :: "int list"
  perameters :: "(string \<times> param) list"
  dialog :: string
  is_single_choice :: bool

definition ChoiceInput_get_input_locale ::
  "ChoiceInput \<Rightarrow> store \<Rightarrow> console \<Rightarrow> error + ((int list \<times> bool) \<times> store \<times> console)" where
  "ChoiceInput_get_input_locale self st c =
     (if length (st (strings self)) = 0 then Inr (([], False), st, c)
      else if length (st (strings self)) = 1 then Inr (([1], False), st, c)
      else
        (let st1 = (if \<not> is_single_choice self
                    then st(strings self := st (strings self) @ [''all_at_once'']) else st);
             c1 = c\<lparr>shown := shown c @ [Menu (dialog self) (st1 (strings self))]\<rparr>;
             key = (if is_single_choice self then ''input_single'' else ''input_many'')
         in case ColoredInput_get key
                   [(''min'', IntP 1), (''max'', IntP (int (length (st1 (strings self)))))] c1 of
              Inl e \<Rightarrow> Inl e
            | Inr (line, c2) \<Rightarrow>
                (let usr_input = py_split CHR '' '' line;
                     int_vals = List.map_filter py_int usr_input
                 in if int (length (st1 (strings self))) \<in> set int_vals
                       \<and> \<not> is_single_choice self
                    then Inr ((map int [1..<length (st1 (strings self))], True), st1, c2)
                    else if is_single_choice self \<and> length int_vals > 1
                    then Inr (([int_vals ! 0], False), st1, c2)
                    else Inr ((int_vals, False), st1, c2))))"

definition multiple_choice ::
  "ChoiceInput \<Rightarrow> store \<Rightarrow> console \<Rightarrow> error + ((int list \<times> bool) \<times> store \<times> console)" where
  "multiple_choice self st c =
     (case ChoiceInput_get_input_locale self st c of
        Inl e \<Rightarrow> Inl e
      | Inr ((user_input, all_at_once), st1, c1) \<Rightarrow>
          Inr ((map (\<lambda>i. i - 1) user_input, all_at_once), st1, c1))"

subsection \<open>\<^verbatim>\<open>MultiEditor\<close>\<close>

text \<open>
  The fields that \<^verbatim>\<open>MultiEditor\<close> shares by name with \<^verbatim>\<open>ChoiceInput\<close> and \<^verbatim>\<open>IntInput\<close> carry
  the prefix \<open>me_\<close>; \<open>group_name\<close> is the entry \<^verbatim>\<open>perameters["group_name"]\<close>.
\<close>

record MultiEditor =
  me_items :: "string list"
  me_strings :: "string list"
  me_ints :: "int list"
  max_values :: "int option list"
  group_name :: string
  me_dialog :: string
  me_is_single_choice :: bool
  me_signed :: bool
  cumulative_max :: bool

text \<open>The first loop of \<^verbatim>\<open>edit_all\<close>, with \<^verbatim>\<open>max_max_value\<close> as accumulator.\<close>

fun max_max_loop :: "bool \<Rightarrow> MultiEditor \<Rightarrow> int list \<Rightarrow> int \<Rightarrow> error + int" where
  "max_max_loop disable_maxes self [] max_max_value = Inr max_max_value"
| "max_max_loop disable_maxes self (choice # choices) max_max_value =
     (case py_get (max_values self) choice of
        Inl e \<Rightarrow> Inl e
      | Inr mv \<Rightarrow>
          (let max_value = (case mv of
                              None \<Rightarrow> get_max_value disable_maxes None (me_signed self)
                            | Some v \<Rightarrow> v)
           in max_max_loop disable_maxes self choices (max max_max_value max_value)))"

text \<open>
  The bound \<^verbatim>\<open>edit_all\<close> hands to \<^verbatim>\<open>IntInput\<close> and shows as \<^verbatim>\<open>max\<close>: the loop, then the floor
  division by the number of choices under \<^verbatim>\<open>cumulative_max\<close>.
\<close>

definition edit_all_bound :: "bool \<Rightarrow> MultiEditor \<Rightarrow> int list \<Rightarrow> error + int" where
  "edit_all_bound disable_maxes self choices =
     (case max_max_loop disable_maxes self choices 0 of
        Inl e \<Rightarrow> Inl e
      | Inr max_max_value \<Rightarrow>
          if cumulative_max self then
            (if length choices = 0 then Inl ZeroDivisionError
             else Inr (max_max_value div int (length choices)))
          else Inr max_max_value)"

text \<open>The second loop of \<^verbatim>\<open>edit_all\<close>.\<close>

fun apply_all ::
  "bool \<Rightarrow> int \<Rightarrow> int list \<Rightarrow> MultiEditor \<Rightarrow> console \<Rightarrow> error + (MultiEditor \<times> console)" where
  "apply_all disable_maxes usr_input [] self c = Inr (self, c)"
| "apply_all disable_maxes usr_input (choice # choices) self c =
     (case py_get (max_values self) choice of
        Inl e \<Rightarrow> Inl e
      | Inr mv \<Rightarrow>
          (let max_value = get_max_value disable_maxes mv (me_signed self);
               v = min usr_input max_value
           in case py_set (me_ints self) choice v of
                Inl e \<Rightarrow> Inl e
              | Inr ints1 \<Rightarrow>
                  (case py_get (me_items self) choice of
                     Inl e \<Rightarrow> Inl e
                   | Inr name \<Rightarrow>
                       apply_all disable_maxes usr_input choices (self\<lparr>me_ints := ints1\<rparr>)
                         (c\<lparr>shown := shown c @ [Changed name v]\<rparr>))))"

definition edit_all ::
  "bool \<Rightarrow> MultiEditor \<Rightarrow> int list \<Rightarrow> console \<Rightarrow> error + (int list \<times> MultiEditor \<times> console)" where
  "edit_all disable_maxes self choices c =
     (case edit_all_bound disable_maxes self choices of
        Inl e \<Rightarrow> Inl e
      | Inr max_max_value \<Rightarrow>
          (case IntInput_get_input_locale_while
                  (IntInput_init disable_maxes (Some max_max_value) 0 None True)
                  (me_dialog self @ ''_all'')
                  [(''name'', StrP (group_name self)), (''max'', IntP max_max_value)] c of
             Inl e \<Rightarrow> Inl e
           | Inr (None, c1) \<Rightarrow> Inr (me_ints self, self, c1)
           | Inr (Some usr_input, c1) \<Rightarrow>
               (case apply_all disable_maxes usr_input choices self c1 of
                  Inl e \<Rightarrow> Inl e
                | Inr (self1, c2) \<Rightarrow> Inr (me_ints self1, self1, c2))))"

text \<open>
  The individual bound of a selected field, as the first loop of \<^verbatim>\<open>edit_all\<close> computes it:
  its entry of \<^verbatim>\<open>max_values\<close>, or the signed or unsigned limit when the entry is \<open>None\<close>.
\<close>

definition individual_bound :: "bool \<Rightarrow> MultiEditor \<Rightarrow> int \<Rightarrow> int" where
  "individual_bound disable_maxes self choice =
     (case py_get (max_values self) choice of
        Inr (Some v) \<Rightarrow> v
      | _ \<Rightarrow> get_max_value disable_maxes None (me_signed self))"

section \<open>Record codec: \<^verbatim>\<open>enigma.py\<close>\<close>

subsection \<open>The binary cursor\<close>

text \<open>
  Modelled from the spec: the class \<^verbatim>\<open>core.Data\<close> (the binary cursor that \<^verbatim>\<open>Stage\<close> and
  \<^verbatim>\<open>Enigma\<close> read from and write to) is not among the sources. The spec describes it as a
  sequential reader and writer over a byte buffer with fixed-width integer, byte, boolean
  and double primitives and a byte offset. \<open>data\<close> is the buffer, \<open>pos\<close> the read offset.
\<close>

record Data =
  data :: bytes
  pos :: nat

text \<open>
  Modelled from the spec: reading \<open>n\<close> bytes of \<^verbatim>\<open>core.Data\<close> (not among the sources). A read
  fails with a decode error when the cursor runs out of bytes; it never pads.
\<close>

definition read_bytes :: "nat \<Rightarrow> Data \<Rightarrow> error + (bytes \<times> Data)" where
  "read_bytes n d =
     (if pos d + n \<le> length (data d)
      then Inr (take n (drop (pos d) (data d)), d\<lparr>pos := pos d + n\<rparr>)
      else Inl DecodeError)"

text \<open>
  Modelled from the spec: writing bytes with \<^verbatim>\<open>core.Data\<close> (not among the sources) appends
  them to the buffer.
\<close>

definition write_bytes :: "bytes \<Rightarrow> Data \<Rightarrow> Data" where
  "write_bytes bs d = d\<lparr>data := data d @ bs\<rparr>"

text \<open>
  Modelled from the spec: the bytes of a fixed-width primitive of \<^verbatim>\<open>core.Data\<close> (not among
  the sources). The spec leaves the byte order to the save format; the least significant
  byte comes first here, and no property below depends on that choice.
\<close>

definition le_bytes :: "nat \<Rightarrow> 'a::len word \<Rightarrow> bytes" where
  "le_bytes n w = map (\<lambda>k. ucast (drop_bit (8 * k) w)) [0..<n]"

text \<open>
  Modelled from the spec: the value of the bytes of a fixed-width primitive of
  \<^verbatim>\<open>core.Data\<close> (not among the sources), least significant byte first.
\<close>

definition le_word :: "bytes \<Rightarrow> 'a::len word" where
  "le_word bs = foldr (\<lambda>b acc. ucast b OR push_bit 8 acc) bs 0"

text \<open>
  Modelled from the spec: \<^verbatim>\<open>core.Data.read_int\<close> (not among the sources) reads a 32-bit
  signed integer.
\<close>

definition read_int :: "Data \<Rightarrow> error + (int \<times> Data)" where
  "read_int d =
     (case read_bytes 4 d of
        Inl e \<Rightarrow> Inl e
      | Inr (bs, d1) \<Rightarrow> Inr (sint (le_word bs :: 32 word), d1))"

text \<open>
  Modelled from the spec: \<^verbatim>\<open>core.Data.write_int\<close> (not among the sources) writes a 32-bit
  signed integer. There is no overflow check: a value outside the width wraps.
\<close>

definition write_int :: "int \<Rightarrow> Data \<Rightarrow> Data" where
  "write_int v d = write_bytes (le_bytes 4 (word_of_int v :: 32 word)) d"

text \<open>
  Modelled from the spec: \<^verbatim>\<open>core.Data.read_byte\<close> (not among the sources) reads a single
  byte, a value from 0 to 255.
\<close>

definition read_byte :: "Data \<Rightarrow> error + (int \<times> Data)" where
  "read_byte d =
     (case read_bytes 1 d of
        Inl e \<Rightarrow> Inl e
      | Inr (bs, d1) \<Rightarrow> Inr (uint (le_word bs :: 8 word), d1))"

text \<open>
  Modelled from the spec: \<^verbatim>\<open>core.Data.write_byte\<close> (not among the sources) writes a single
  byte. The spec says of the stage count that the source has no overflow check before
  writing and silently wraps: a value outside 0 to 255 is written modulo 256.
\<close>

definition write_byte :: "int \<Rightarrow> Data \<Rightarrow> Data" where
  "write_byte v d = write_bytes (le_bytes 1 (word_of_int v :: 8 word)) d"

text \<open>
  Modelled from the spec: \<^verbatim>\<open>core.Data.read_bool\<close> (not among the sources) reads a boolean
  from one byte; any non-zero byte is true.
\<close>

definition read_bool :: "Data \<Rightarrow> error + (bool \<times> Data)" where
  "read_bool d =
     (case read_bytes 1 d of
        Inl e \<Rightarrow> Inl e
      | Inr (bs, d1) \<Rightarrow> Inr ((le_word bs :: 8 word) \<noteq> 0, d1))"

text \<open>
  Modelled from the spec: \<^verbatim>\<open>core.Data.write_bool\<close> (not among the sources) writes a boolean
  as one byte, 1 for true and 0 for false.
\<close>

definition write_bool :: "bool \<Rightarrow> Data \<Rightarrow> Data" where
  "write_bool b d = write_bytes [if b then 1 else 0] d"

text \<open>
  A Python float is an IEEE 754 double. It is represented by its 64-bit pattern, which is
  all the codec moves.
\<close>

type_synonym double = "64 word"

text \<open>
  Modelled from the spec: \<^verbatim>\<open>core.Data.read_double\<close> (not among the sources) reads a double
  from eight bytes.
\<close>

definition read_double :: "Data \<Rightarrow> error + (double \<times> Data)" where
  "read_double d =
     (case read_bytes 8 d of
        Inl e \<Rightarrow> Inl e
      | Inr (bs, d1) \<Rightarrow> Inr (le_word bs, d1))"

text \<open>
  Modelled from the spec: \<^verbatim>\<open>core.Data.write_double\<close> (not among the sources) writes a double
  as eight bytes.
\<close>

definition write_double :: "double \<Rightarrow> Data \<Rightarrow> Data" where
  "write_double v d = write_bytes (le_bytes 8 v) d"

subsection \<open>\<^verbatim>\<open>Stage\<close>\<close>

record Stage =
  level :: int
  stage_id :: int
  decoding_satus :: int
  start_time :: double

definition Stage_init :: Stage where
  "Stage_init = \<lparr>level = 0, stage_id = 0, decoding_satus = 0, start_time = 0\<rparr>"

definition Stage_read :: "Data \<Rightarrow> error + (Stage \<times> Data)" where
  "Stage_read d =
     (case read_int d of
        Inl e \<Rightarrow> Inl e
      | Inr (lv, d1) \<Rightarrow>
          (case read_int d1 of
             Inl e \<Rightarrow> Inl e
           | Inr (sid, d2) \<Rightarrow>
               (case read_byte d2 of
                  Inl e \<Rightarrow> Inl e
                | Inr (ds, d3) \<Rightarrow>
                    (case read_double d3 of
                       Inl e \<Rightarrow> Inl e
                     | Inr (st, d4) \<Rightarrow>
                         Inr (\<lparr>level = lv, stage_id = sid, decoding_satus = ds,
                               start_time = st\<rparr>, d4)))))"

definition Stage_write :: "Stage \<Rightarrow> Data \<Rightarrow> Data" where
  "Stage_write self d =
     write_double (start_time self)
       (write_byte (decoding_satus self)
          (write_int (stage_id self)
             (write_int (level self) d)))"

subsection \<open>\<^verbatim>\<open>Enigma\<close>\<close>

record Enigma =
  energy_since_1 :: int
  energy_since_2 :: int
  enigma_level :: int
  unknown_1 :: int
  unknown_2 :: bool
  stages :: "Stage list"

definition Enigma_init :: Enigma where
  "Enigma_init =
     \<lparr>energy_since_1 = 0, energy_since_2 = 0, enigma_level = 0, unknown_1 = 0,
      unknown_2 = False, stages = []\<rparr>"

text \<open>The comprehension \<^verbatim>\<open>[Stage.read(data) for _ in range(n)]\<close>.\<close>

fun read_stages :: "nat \<Rightarrow> Data \<Rightarrow> error + (Stage list \<times> Data)" where
  "read_stages 0 d = Inr ([], d)"
| "read_stages (Suc n) d =
     (case Stage_read d of
        Inl e \<Rightarrow> Inl e
      | Inr (s, d1) \<Rightarrow>
          (case read_stages n d1 of
             Inl e \<Rightarrow> Inl e
           | Inr (ss, d2) \<Rightarrow> Inr (s # ss, d2)))"

definition Enigma_read :: "Data \<Rightarrow> error + (Enigma \<times> Data)" where
  "Enigma_read d =
     (case read_int d of
        Inl e \<Rightarrow> Inl e
      | Inr (e1, d1) \<Rightarrow>
          (case read_int d1 of
             Inl e \<Rightarrow> Inl e
           | Inr (e2, d2) \<Rightarrow>
               (case read_byte d2 of
                  Inl e \<Rightarrow> Inl e
                | Inr (lv, d3) \<Rightarrow>
                    (case read_byte d3 of
                       Inl e \<Rightarrow> Inl e
                     | Inr (u1, d4) \<Rightarrow>
                         (case read_bool d4 of
                            Inl e \<Rightarrow> Inl e
                          | Inr (u2, d5) \<Rightarrow>
                              (case read_byte d5 of
                                 Inl e \<Rightarrow> Inl e
                               | Inr (n, d6) \<Rightarrow>
                                   (case read_stages (nat n) d6 of
                                      Inl e \<Rightarrow> Inl e
                                    | Inr (ss, d7) \<Rightarrow>
                                        Inr (\<lparr>energy_since_1 = e1, energy_since_2 = e2,
                                              enigma_level = lv, unknown_1 = u1,
                                              unknown_2 = u2, stages = ss\<rparr>, d7))))))))"

text \<open>The loop \<^verbatim>\<open>for stage in self.stages: stage.write(data)\<close>.\<close>

fun write_stages :: "Stage list \<Rightarrow> Data \<Rightarrow> Data" where
  "write_stages [] d = d"
| "write_stages (stage # ss) d = write_stages ss (Stage_write stage d)"

definition Enigma_write :: "Enigma \<Rightarrow> Data \<Rightarrow> Data" where
  "Enigma_write self d =
     write_stages (stages self)
       (write_byte (int (length (stages self)))
          (write_bool (unknown_2 self)
             (write_byte (unknown_1 self)
                (write_byte (enigma_level self)
                   (write_int (energy_since_2 self)
                      (write_int (energy_since_1 self) d))))))"

text \<open>
  A record is in range when every integer field fits the width it is written with and
  the stage count fits the count byte.
\<close>

definition Stage_in_range :: "Stage \<Rightarrow> bool" where
  "Stage_in_range s =
     (- (2 ^ 31) \<le> level s \<and> level s < 2 ^ 31
      \<and> - (2 ^ 31) \<le> stage_id s \<and> stage_id s < 2 ^ 31
      \<and> 0 \<le> decoding_satus s \<and> decoding_satus s < 256)"

definition Enigma_in_range :: "Enigma \<Rightarrow> bool" where
  "Enigma_in_range e =
     (- (2 ^ 31) \<le> energy_since_1 e \<and> energy_since_1 e < 2 ^ 31
      \<and> - (2 ^ 31) \<le> energy_since_2 e \<and> energy_since_2 e < 2 ^ 31
      \<and> 0 \<le> enigma_level e \<and> enigma_level e < 256
      \<and> 0 \<le> unknown_1 e \<and> unknown_1 e < 256
      \<and> length (stages e) \<le> 255
      \<and> list_all Stage_in_range (stages e))"

text \<open>A fresh cursor over a byte buffer, and the bytes a write produces from nothing.\<close>

definition cursor :: "bytes \<Rightarrow> Data" where
  "cursor bs = \<lparr>data = bs, pos = 0\<rparr>"

definition Stage_bytes :: "Stage \<Rightarrow> bytes" where
  "Stage_bytes s = data (Stage_write s (cursor []))"

definition Enigma_bytes :: "Enigma \<Rightarrow> bytes" where
  "Enigma_bytes e = data (Enigma_write e (cursor []))"

section \<open>Properties of the fetcher\<close>

lemma get_packname_idem: "get_packname g (get_packname g p) = get_packname g p"
  by (simp add: get_packname_def)

subsection \<open>Pack name adjustment\<close>

text \<open>
  Claim C10. \<^verbatim>\<open>get_packname\<close> is idempotent. A name other than \<^verbatim>\<open>resLocal\<close> passes through
  unchanged; the result is either the name itself or the name with the locale suffix, and
  a suffixed name is not suffixed again. Hence every entry point that re-applies the
  adjustment to an adjusted name (\<^verbatim>\<open>get_file_path\<close>, \<^verbatim>\<open>is_downloaded\<close>, \<^verbatim>\<open>get_file\<close>,
  \<^verbatim>\<open>save_file\<close>, \<^verbatim>\<open>download\<close>) computes the same cache key, the same URL and the same result
  as on the original name.
\<close>

theorem get_packname_idempotent:
  "get_packname g (get_packname g p) = get_packname g p
   \<and> (p \<noteq> ''resLocal'' \<longrightarrow> get_packname g p = p)
   \<and> (get_packname g p = p
        \<or> get_packname g p = p @ ''_'' @ lang g
          \<and> get_packname g (p @ ''_'' @ lang g) = p @ ''_'' @ lang g)
   \<and> get_file_path g (get_packname g p) f w = get_file_path g p f w
   \<and> is_downloaded g (get_packname g p) f w = is_downloaded g p f w
   \<and> get_file net g (get_packname g p) f w = get_file net g p f w
   \<and> save_file net g (get_packname g p) f w = save_file net g p f w
   \<and> download d net g (get_packname g p) f r t w = download d net g p f r t w"
proof -
  have a: "p \<noteq> ''resLocal'' \<longrightarrow> get_packname g p = p"
    by (simp add: get_packname_def)
  have b: "get_packname g p = p
        \<or> get_packname g p = p @ ''_'' @ lang g
          \<and> get_packname g (p @ ''_'' @ lang g) = p @ ''_'' @ lang g"
    by (simp add: get_packname_def)
  have c: "get_file_path g (get_packname g p) f w = get_file_path g p f w"
    by (simp add: get_file_path_def get_packname_idem cong: option.case_cong)
  have d: "is_downloaded g (get_packname g p) f w = is_downloaded g p f w"
    by (simp add: is_downloaded_def get_packname_idem)
  have e: "get_file net g (get_packname g p) f w = get_file net g p f w"
    by (simp add: get_file_def get_packname_idem cong: option.case_cong)
  have s: "save_file net g (get_packname g p) f w = save_file net g p f w"
    by (simp add: save_file_def get_packname_idem)
  have dl: "download d net g (get_packname g p) f r t w = download d net g p f r t w"
    by (cases d) (simp_all add: get_packname_idem)
  from get_packname_idem a b c d e s dl show ?thesis by blast
qed

theorem get_packname_idempotent_witness:
  "''DataLocal'' \<noteq> ''resLocal''
   \<and> get_packname \<lparr>url = ''u/'', lang = ''fr'', cc = EN, langs = [''it'', ''fr''],
         all_versions = [''v1''], latest_version = Some ''v1''\<rparr> ''DataLocal'' = ''DataLocal''
   \<and> get_packname \<lparr>url = ''u/'', lang = ''fr'', cc = EN, langs = [''it'', ''fr''],
         all_versions = [''v1''], latest_version = Some ''v1''\<rparr> ''resLocal'' = ''resLocal_fr''
   \<and> get_packname \<lparr>url = ''u/'', lang = ''fr'', cc = EN, langs = [''it'', ''fr''],
         all_versions = [''v1''], latest_version = Some ''v1''\<rparr> ''resLocal_fr'' = ''resLocal_fr''"
  using get_packname_idempotent
    [where g = "\<lparr>url = ''u/'', lang = ''fr'', cc = EN, langs = [''it'', ''fr''],
         all_versions = [''v1''], latest_version = Some ''v1''\<rparr>" and p = "''DataLocal''"]
    get_packname_idempotent
    [where g = "\<lparr>url = ''u/'', lang = ''fr'', cc = EN, langs = [''it'', ''fr''],
         all_versions = [''v1''], latest_version = Some ''v1''\<rparr>" and p = "''resLocal''"]
  by (simp add: get_packname_def)

lemma get_file_path_Some:
  "latest_version g = Some v \<Longrightarrow>
   get_file_path g p f w =
     (Some [''game_data'', v, get_packname g p, f],
      w\<lparr>dirs := insert [''game_data'', v, get_packname g p] (dirs w)\<rparr>)"
  by (simp add: get_file_path_def Let_def)

lemma get_file_path_None:
  "latest_version g = None \<Longrightarrow> get_file_path g p f w = (None, w)"
  by (simp add: get_file_path_def)

lemma is_downloaded_Some:
  "latest_version g = Some v \<Longrightarrow>
   is_downloaded g p f w =
     (cache_entry g p f w \<noteq> None,
      w\<lparr>dirs := insert [''game_data'', v, get_packname g p] (dirs w)\<rparr>)"
  by (simp add: is_downloaded_def get_file_path_Some get_packname_idem path_exists_def
      cache_entry_def Let_def)

lemma is_downloaded_None:
  "latest_version g = None \<Longrightarrow> is_downloaded g p f w = (False, w)"
  by (simp add: is_downloaded_def get_file_path_None)

lemma cache_entry_dirs [simp]: "cache_entry g p f (w\<lparr>dirs := D\<rparr>) = cache_entry g p f w"
  by (simp add: cache_entry_def split: option.splits)

lemma cache_entry_displayed [simp]: "cache_entry g p f (w\<lparr>displayed := D\<rparr>) = cache_entry g p f w"
  by (simp add: cache_entry_def split: option.splits)

lemma cache_entry_packname [simp]: "cache_entry g (get_packname g p) f w = cache_entry g p f w"
  by (simp add: cache_entry_def get_packname_idem cong: option.case_cong)

lemma download_cached:
  assumes "cache_entry g p f w = Some b"
  shows "\<exists>v. latest_version g = Some v \<and> download (Suc d) net g p f r t w =
     Inr (Some b, w\<lparr>dirs := insert [''game_data'', v, get_packname g p] (dirs w)\<rparr>)"
proof -
  from assms obtain v where v: "latest_version g = Some v"
    by (auto simp: cache_entry_def split: option.splits)
  from assms v have fl: "files w [''game_data'', v, get_packname g p, f] = Some b"
    by (simp add: cache_entry_def)
  have "download (Suc d) net g p f r t w =
     Inr (Some b, w\<lparr>dirs := insert [''game_data'', v, get_packname g p] (dirs w)\<rparr>)"
    using assms v fl
    by (simp add: is_downloaded_Some get_file_path_Some get_packname_idem path_read_def)
  with v show ?thesis by blast
qed

lemma save_file_Some:
  assumes "save_file net g p f w = Inr (Some b, w1)"
  shows "cache_entry g p f w1 = Some b"
  using assms
  by (auto simp: save_file_def get_file_def get_file_path_def to_file_def cache_entry_def
      get_packname_idem Let_def split: option.splits sum.splits if_splits prod.splits)

lemma download_uncached:
  assumes "latest_version g = Some v" and "cache_entry g p f w = None"
  shows "download (Suc d) net g p f r t w =
     (let w1 = w\<lparr>dirs := insert [''game_data'', v, get_packname g p] (dirs w)\<rparr> in
      if r - 1 = 0 then Inr (None, w1)
      else
        (case save_file net g (get_packname g p) f
                (if t then w1\<lparr>displayed := displayed w1 @ [Downloading f (get_packname g p) v]\<rparr>
                 else w1) of
           Inl e \<Rightarrow> Inl e
         | Inr (None, w3) \<Rightarrow> download d net g (get_packname g p) f (r - 1) t w3
         | Inr (Some b, w3) \<Rightarrow> Inr (Some b, w3)))"
  using assms by (simp add: is_downloaded_Some get_packname_idem Let_def)

lemma download_Some_cached:
  "download d net g p f r t w = Inr (Some b, w1) \<Longrightarrow> cache_entry g p f w1 = Some b"
proof (induction d arbitrary: p r w)
  case 0
  then show ?case by simp
next
  case (Suc d)
  show ?case
  proof (cases "latest_version g")
    case None
    with Suc.prems show ?thesis
      by (simp add: is_downloaded_None Let_def split: if_splits)
  next
    case (Some v)
    note v = this
    show ?thesis
    proof (cases "cache_entry g p f w")
      case (Some b')
      from download_cached[OF this, of d net r t] Suc.prems v
      have "b' = b" "w1 = w\<lparr>dirs := insert [''game_data'', v, get_packname g p] (dirs w)\<rparr>"
        by auto
      with Some show ?thesis by simp
    next
      case None
      define w0 where "w0 = w\<lparr>dirs := insert [''game_data'', v, get_packname g p] (dirs w)\<rparr>"
      define w2 where "w2 = (if t
          then w0\<lparr>displayed := displayed w0 @ [Downloading f (get_packname g p) v]\<rparr> else w0)"
      have unf: "download (Suc d) net g p f r t w =
        (if r - 1 = 0 then Inr (None, w0)
         else (case save_file net g (get_packname g p) f w2 of
                 Inl e \<Rightarrow> Inl e
               | Inr (None, w3) \<Rightarrow> download d net g (get_packname g p) f (r - 1) t w3
               | Inr (Some b, w3) \<Rightarrow> Inr (Some b, w3)))"
        unfolding download_uncached[OF v None] Let_def w2_def w0_def by (rule refl)
      from Suc.prems unf have nz: "r - 1 \<noteq> 0"
        by (auto split: if_splits)
      with Suc.prems unf
      have step: "(case save_file net g (get_packname g p) f w2 of
                 Inl e \<Rightarrow> Inl e
               | Inr (None, w3) \<Rightarrow> download d net g (get_packname g p) f (r - 1) t w3
               | Inr (Some b, w3) \<Rightarrow> Inr (Some b, w3)) = Inr (Some b, w1)"
        by simp
      show ?thesis
      proof (cases "save_file net g (get_packname g p) f w2")
        case (Inl e)
        with step show ?thesis by simp
      next
        case (Inr res)
        obtain ob w3 where res: "res = (ob, w3)" by (cases res)
        show ?thesis
        proof (cases ob)
          case None
          with step Inr res
          have "download d net g (get_packname g p) f (r - 1) t w3 = Inr (Some b, w1)"
            by simp
          from Suc.IH[OF this] show ?thesis by simp
        next
          case (Some b')
          with step Inr res have "b' = b" "w3 = w1" by simp_all
          with Inr res Some have "save_file net g (get_packname g p) f w2 = Inr (Some b, w1)"
            by simp
          from save_file_Some[OF this] show ?thesis by simp
        qed
      qed
    qed
  qed
qed


lemma download_no_version:
  "latest_version g = None \<Longrightarrow> download (Suc d) net g p f r t w = Inr (None, w)"
  by (simp add: is_downloaded_None Let_def)

lemma read_all_eq:
  "\<exists>w2. read_all g (get_packname g p) fs w =
           Inr (map (\<lambda>f. map_option (Pair f) (cache_entry g p f w)) fs, w2)
        \<and> files w2 = files w \<and> requests w2 = requests w \<and> displayed w2 = displayed w"
proof (induction fs arbitrary: w)
  case Nil
  show ?case by simp
next
  case (Cons f fs)
  show ?case
  proof (cases "latest_version g")
    case None
    from Cons.IH[of w] obtain w2 where
      "read_all g (get_packname g p) fs w =
         Inr (map (\<lambda>f. map_option (Pair f) (cache_entry g p f w)) fs, w2)"
      "files w2 = files w" "requests w2 = requests w" "displayed w2 = displayed w"
      by blast
    with None show ?thesis
      by (simp add: get_file_path_None cache_entry_def)
  next
    case (Some v)
    let ?w1 = "w\<lparr>dirs := insert [''game_data'', v, get_packname g p] (dirs w)\<rparr>"
    from Cons.IH[of ?w1] obtain w2 where
      ih: "read_all g (get_packname g p) fs ?w1 =
         Inr (map (\<lambda>f. map_option (Pair f) (cache_entry g p f ?w1)) fs, w2)"
      "files w2 = files ?w1" "requests w2 = requests ?w1" "displayed w2 = displayed ?w1"
      by blast
    show ?thesis
    proof (cases "cache_entry g p f w")
      case None
      with Some ih show ?thesis
        by (simp add: get_file_path_Some get_packname_idem path_exists_def cache_entry_def)
    next
      case (Some b)
      with \<open>latest_version g = Some v\<close> ih show ?thesis
        by (simp add: get_file_path_Some get_packname_idem path_exists_def path_read_def
            cache_entry_def)
    qed
  qed
qed

lemmas fetch_defs =
  cache_entry_def GameDataGetter_init_def get_latest_version_def is_downloaded_def
  get_file_path_def get_packname_def path_exists_def path_read_def save_file_def get_file_def
  to_file_def Let_def

subsection \<open>Version resolution\<close>

text \<open>
  Claim C7. Version resolution maps the regions \<open>EN\<close>, \<open>JP\<close>, \<open>KR\<close>, \<open>TW\<close> to the positions 0,
  1, 2, 3 of the fetched version list and needs the list to have at least position + 1
  entries; with a shorter list or another region the resolved version is \<open>None\<close>. The
  constructor stores that value, and with no resolved version \<^verbatim>\<open>get_file\<close>,
  \<^verbatim>\<open>get_file_path\<close>, \<^verbatim>\<open>is_downloaded\<close>, \<^verbatim>\<open>save_file\<close> and \<^verbatim>\<open>download\<close> return absent data
  without an error and leave the world as it was (no request, no directory, no message).
\<close>

theorem version_resolution:
  "get_latest_version vs c =
     (case c of
        EN \<Rightarrow> if 0 + 1 \<le> length vs then Some (vs ! 0) else None
      | JP \<Rightarrow> if 1 + 1 \<le> length vs then Some (vs ! 1) else None
      | KR \<Rightarrow> if 2 + 1 \<le> length vs then Some (vs ! 2) else None
      | TW \<Rightarrow> if 3 + 1 \<le> length vs then Some (vs ! 3) else None
      | OtherCC \<Rightarrow> None)
   \<and> latest_version (GameDataGetter_init u l c ls vs) = get_latest_version vs c
   \<and> (latest_version g = None \<longrightarrow>
        get_file net g p f w = Inr (None, w)
      \<and> get_file_path g p f w = (None, w)
      \<and> is_downloaded g p f w = (False, w)
      \<and> save_file net g p f w = Inr (None, w)
      \<and> download (Suc d) net g p f r t w = Inr (None, w))"
proof -
  have a: "get_latest_version vs c =
     (case c of
        EN \<Rightarrow> if 0 + 1 \<le> length vs then Some (vs ! 0) else None
      | JP \<Rightarrow> if 1 + 1 \<le> length vs then Some (vs ! 1) else None
      | KR \<Rightarrow> if 2 + 1 \<le> length vs then Some (vs ! 2) else None
      | TW \<Rightarrow> if 3 + 1 \<le> length vs then Some (vs ! 3) else None
      | OtherCC \<Rightarrow> None)"
    by (cases c) (simp_all add: get_latest_version_def)
  have b: "latest_version (GameDataGetter_init u l c ls vs) = get_latest_version vs c"
    by (simp add: GameDataGetter_init_def)
  have c: "get_file net g p f w = Inr (None, w)" if "latest_version g = None"
    using that by (simp add: get_file_def)
  have s: "save_file net g p f w = Inr (None, w)" if "latest_version g = None"
    using that by (simp add: save_file_def get_file_def)
  from a b c s show ?thesis
    by (simp add: get_file_path_None is_downloaded_None download_no_version
        del: download.simps)
qed

theorem version_resolution_witness:
  "get_latest_version [''1.0'', ''2.0''] EN = Some ''1.0''
   \<and> get_latest_version [''1.0'', ''2.0''] JP = Some ''2.0''
   \<and> get_latest_version [''1.0'', ''2.0''] KR = None
   \<and> latest_version (GameDataGetter_init ''u/'' ''en'' KR [] [''1.0'', ''2.0'']) = None
   \<and> get_file (\<lambda>h u. Inl RequestError) (GameDataGetter_init ''u/'' ''en'' KR [] [''1.0'', ''2.0''])
        ''p'' ''f'' \<lparr>files = Map.empty, dirs = {}, requests = [], displayed = []\<rparr>
      = Inr (None, \<lparr>files = Map.empty, dirs = {}, requests = [], displayed = []\<rparr>)
   \<and> download (Suc 0) (\<lambda>h u. Inl RequestError)
        (GameDataGetter_init ''u/'' ''en'' KR [] [''1.0'', ''2.0''])
        ''p'' ''f'' 2 True \<lparr>files = Map.empty, dirs = {}, requests = [], displayed = []\<rparr>
      = Inr (None, \<lparr>files = Map.empty, dirs = {}, requests = [], displayed = []\<rparr>)"
  using version_resolution [of "[''1.0'', ''2.0'']" EN]
    version_resolution [of "[''1.0'', ''2.0'']" JP]
    version_resolution [of "[''1.0'', ''2.0'']" KR "''u/''" "''en''" "[]"
      "GameDataGetter_init ''u/'' ''en'' KR [] [''1.0'', ''2.0'']" "\<lambda>h u. Inl RequestError"
      "''p''" "''f''" "\<lparr>files = Map.empty, dirs = {}, requests = [], displayed = []\<rparr>" 0 2 True]
  by (simp del: download.simps)

subsection \<open>Fetch caching\<close>

text \<open>
  Claim C6. When the cache entry of (pack, file) exists for the resolved version,
  \<^verbatim>\<open>download\<close> returns the cached bytes, whatever the remote side and the retry budget are,
  and the list of requests, the files and the messages are as before. And when any call
  of \<^verbatim>\<open>download\<close> has returned bytes, a second call for the same file returns the same
  bytes without a request.
\<close>

theorem download_cached_no_request:
  "(cache_entry g p f w = Some b \<longrightarrow>
      (\<exists>w1. download (Suc d) net g p f r t w = Inr (Some b, w1)
          \<and> requests w1 = requests w \<and> files w1 = files w \<and> displayed w1 = displayed w))
   \<and> (download d net g p f r t w = Inr (Some b, w1) \<longrightarrow>
      (\<exists>w2. download (Suc d') net' g p f r' t' w1 = Inr (Some b, w2)
          \<and> requests w2 = requests w1 \<and> files w2 = files w1 \<and> displayed w2 = displayed w1))"
proof -
  have first: "\<exists>w1. download (Suc d) net g p f r t w = Inr (Some b, w1)
          \<and> requests w1 = requests w \<and> files w1 = files w \<and> displayed w1 = displayed w"
    if "cache_entry g p f w = Some b" for d net r t w
    using download_cached[OF that, of d net r t] by auto
  have second: "\<exists>w2. download (Suc d') net' g p f r' t' w1 = Inr (Some b, w2)
          \<and> requests w2 = requests w1 \<and> files w2 = files w1 \<and> displayed w2 = displayed w1"
    if "download d net g p f r t w = Inr (Some b, w1)"
    using first[OF download_Some_cached[OF that]] .
  from first second show ?thesis by blast
qed


theorem download_cached_no_request_witness:
  "cache_entry (GameDataGetter_init ''u/'' ''en'' EN [] [''1.0'']) ''p'' ''f''
      \<lparr>files = [[''game_data'', ''1.0'', ''p'', ''f''] \<mapsto> [1, 2]], dirs = {}, requests = [],
       displayed = []\<rparr> = Some [1, 2]
   \<and> map_sum id (\<lambda>(b, w). (b, requests w))
        (download (Suc 0) (\<lambda>h u. Inl RequestError)
          (GameDataGetter_init ''u/'' ''en'' EN [] [''1.0'']) ''p'' ''f'' 2 True
          \<lparr>files = [[''game_data'', ''1.0'', ''p'', ''f''] \<mapsto> [1, 2]], dirs = {}, requests = [],
           displayed = []\<rparr>) = Inr (Some [1, 2], [])
   \<and> map_sum id (\<lambda>(b, w). (b, requests w))
        (download (Suc (Suc 0)) (\<lambda>h u. Inr \<lparr>status_code = 200, content = [7]\<rparr>)
          (GameDataGetter_init ''u/'' ''en'' EN [] [''1.0'']) ''p'' ''f'' 2 True
          \<lparr>files = Map.empty, dirs = {}, requests = [], displayed = []\<rparr>)
       = Inr (Some [7], [''u/1.0/p/f''])
   \<and> map_sum id (\<lambda>(b, w). (b, requests w))
        (download (Suc 0) (\<lambda>h u. Inl RequestError)
          (GameDataGetter_init ''u/'' ''en'' EN [] [''1.0'']) ''p'' ''f'' 2 True
          \<lparr>files = [[''game_data'', ''1.0'', ''p'', ''f''] \<mapsto> [7]],
           dirs = {[''game_data'', ''1.0'', ''p'']}, requests = [''u/1.0/p/f''],
           displayed = [Downloading ''f'' ''p'' ''1.0'']\<rparr>) = Inr (Some [7], [''u/1.0/p/f''])"
proof -
  let ?g = "GameDataGetter_init ''u/'' ''en'' EN [] [''1.0'']"
  let ?w = "\<lparr>files = [[''game_data'', ''1.0'', ''p'', ''f''] \<mapsto> [1, 2]], dirs = {},
             requests = [], displayed = []\<rparr>"
  let ?e = "\<lparr>files = Map.empty, dirs = {}, requests = [], displayed = []\<rparr>"
  let ?w1 = "\<lparr>files = [[''game_data'', ''1.0'', ''p'', ''f''] \<mapsto> [7]],
           dirs = {[''game_data'', ''1.0'', ''p'']}, requests = [''u/1.0/p/f''],
           displayed = [Downloading ''f'' ''p'' ''1.0'']\<rparr>"
  have h1: "cache_entry ?g ''p'' ''f'' ?w = Some [1, 2]"
    by (simp add: fetch_defs)
  have h2: "download (Suc (Suc 0)) (\<lambda>h u. Inr \<lparr>status_code = 200, content = [7]\<rparr>) ?g
              ''p'' ''f'' 2 True ?e = Inr (Some [7], ?w1)"
    by (simp add: fetch_defs)
  from h1 download_cached_no_request [where g = ?g and p = "''p''" and f = "''f''" and w = ?w
      and b = "[1, 2]" and d = 0 and net = "\<lambda>h u. Inl RequestError" and r = 2 and t = True]
  obtain wa where a: "download (Suc 0) (\<lambda>h u. Inl RequestError) ?g ''p'' ''f'' 2 True ?w
      = Inr (Some [1, 2], wa)" "requests wa = requests ?w"
    by blast
  from h2 download_cached_no_request [where g = ?g and p = "''p''" and f = "''f''" and w = ?e
      and b = "[7]" and d = "Suc (Suc 0)"
      and net = "\<lambda>h u. Inr \<lparr>status_code = 200, content = [7]\<rparr>" and r = 2 and t = True
      and ?w1.0 = ?w1 and d' = 0 and net' = "\<lambda>h u. Inl RequestError" and r' = 2 and t' = True]
  obtain wb where b: "download (Suc 0) (\<lambda>h u. Inl RequestError) ?g ''p'' ''f'' 2 True ?w1
      = Inr (Some [7], wb)" "requests wb = requests ?w1"
    by blast
  from h1 h2 a b show ?thesis
    by (simp del: download.simps)
qed

subsection \<open>Batch ordering\<close>

text \<open>
  Claim C8. For every behaviour \<open>trm\<close> of \<^verbatim>\<open>thread_run_many\<close>, that is whatever order the
  dispatched fetch tasks run and complete in, \<^verbatim>\<open>download_all\<close> returns a list as long as
  \<^verbatim>\<open>file_names\<close> whose i-th element belongs to \<^verbatim>\<open>file_names[i]\<close>: the pair of that name and
  the bytes of its cache entry in the world the concurrent phase left, or \<open>None\<close> when the
  entry is absent there.
\<close>

theorem download_all_order:
  "\<exists>res w2.
      download_all trm d net g p fs t w = Inr (res, w2)
    \<and> files w2 = files (trm (map (\<lambda>f. download d net g (get_packname g p) f 2 t) fs) w)
    \<and> length res = length fs
    \<and> res = map (\<lambda>f. map_option (Pair f)
          (cache_entry g p f (trm (map (\<lambda>f. download d net g (get_packname g p) f 2 t) fs) w))) fs
    \<and> (\<forall>i < length fs. res ! i =
          (case cache_entry g p (fs ! i)
                  (trm (map (\<lambda>f. download d net g (get_packname g p) f 2 t) fs) w) of
             None \<Rightarrow> None
           | Some b \<Rightarrow> Some (fs ! i, b)))"
proof -
  define w1 where "w1 = trm (map (\<lambda>f. download d net g (get_packname g p) f 2 t) fs) w"
  from read_all_eq[of g p fs w1] obtain w2 where
    r: "read_all g (get_packname g p) fs w1 =
           Inr (map (\<lambda>f. map_option (Pair f) (cache_entry g p f w1)) fs, w2)"
    and f: "files w2 = files w1"
    by blast
  have d: "download_all trm d net g p fs t w =
      Inr (map (\<lambda>f. map_option (Pair f) (cache_entry g p f w1)) fs, w2)"
    using r by (simp add: download_all_def w1_def Let_def)
  have nth: "\<forall>i < length fs. map (\<lambda>f. map_option (Pair f) (cache_entry g p f w1)) fs ! i =
          (case cache_entry g p (fs ! i) w1 of None \<Rightarrow> None | Some b \<Rightarrow> Some (fs ! i, b))"
    by (simp split: option.splits)
  from d f nth show ?thesis
    unfolding w1_def by simp
qed


theorem download_all_order_witness:
  "map_sum id fst
     (download_all
        (\<lambda>tasks w. fold (\<lambda>task w. case task w of Inl e \<Rightarrow> w | Inr (r, w1) \<Rightarrow> w1) (rev tasks) w)
        (Suc (Suc 0))
        (\<lambda>h u. if u = ''u/1.0/p/f2'' then Inr \<lparr>status_code = 404, content = []\<rparr>
               else Inr \<lparr>status_code = 200, content = [of_nat (length h)]\<rparr>)
        (GameDataGetter_init ''u/'' ''en'' EN [] [''1.0'']) ''p'' [''f1'', ''f2'', ''f3''] False
        \<lparr>files = Map.empty, dirs = {}, requests = [], displayed = []\<rparr>)
   = Inr [Some (''f1'', [2]), None, Some (''f3'', [0])]
   \<and> map_sum id fst
     (download_all
        (\<lambda>tasks w. fold (\<lambda>task w. case task w of Inl e \<Rightarrow> w | Inr (r, w1) \<Rightarrow> w1) tasks w)
        (Suc (Suc 0))
        (\<lambda>h u. if u = ''u/1.0/p/f2'' then Inr \<lparr>status_code = 404, content = []\<rparr>
               else Inr \<lparr>status_code = 200, content = [of_nat (length h)]\<rparr>)
        (GameDataGetter_init ''u/'' ''en'' EN [] [''1.0'']) ''p'' [''f1'', ''f2'', ''f3''] False
        \<lparr>files = Map.empty, dirs = {}, requests = [], displayed = []\<rparr>)
   = Inr [Some (''f1'', [0]), None, Some (''f3'', [2])]"
proof -
  let ?net = "\<lambda>h u. if u = ''u/1.0/p/f2'' then Inr \<lparr>status_code = 404, content = []\<rparr>
               else Inr \<lparr>status_code = 200, content = [of_nat (length h) :: byte]\<rparr>"
  let ?g = "GameDataGetter_init ''u/'' ''en'' EN [] [''1.0'']"
  let ?e = "\<lparr>files = Map.empty, dirs = {}, requests = [], displayed = []\<rparr>"
  let ?backward = "\<lambda>tasks w. fold (\<lambda>task w. case task w of Inl e \<Rightarrow> w | Inr (r :: bytes option, w1) \<Rightarrow> w1)
                 (rev tasks) (w :: world)"
  let ?forward = "\<lambda>tasks w. fold (\<lambda>task w. case task w of Inl e \<Rightarrow> w | Inr (r :: bytes option, w1) \<Rightarrow> w1)
                 tasks (w :: world)"
  have c1: "cache_entry ?g ''p'' f
      (?backward (map (\<lambda>f. download (Suc (Suc 0)) ?net ?g (get_packname ?g ''p'') f 2 False)
         [''f1'', ''f2'', ''f3'']) ?e)
      = (if f = ''f1'' then Some [2] else if f = ''f3'' then Some [0] else None)" for f
    by (simp add: fetch_defs)
  have c2: "cache_entry ?g ''p'' f
      (?forward (map (\<lambda>f. download (Suc (Suc 0)) ?net ?g (get_packname ?g ''p'') f 2 False)
         [''f1'', ''f2'', ''f3'']) ?e)
      = (if f = ''f1'' then Some [0] else if f = ''f3'' then Some [2] else None)" for f
    by (simp add: fetch_defs)
  from download_all_order [of ?backward "Suc (Suc 0)" ?net ?g "''p''" "[''f1'', ''f2'', ''f3'']" False ?e]
  obtain w2 where
    r1: "download_all ?backward (Suc (Suc 0)) ?net ?g ''p'' [''f1'', ''f2'', ''f3''] False ?e
       = Inr ([Some (''f1'', [2]), None, Some (''f3'', [0])], w2)"
    unfolding c1 by auto
  from download_all_order [of ?forward "Suc (Suc 0)" ?net ?g "''p''" "[''f1'', ''f2'', ''f3'']" False ?e]
  obtain w3 where
    r2: "download_all ?forward (Suc (Suc 0)) ?net ?g ''p'' [''f1'', ''f2'', ''f3''] False ?e
       = Inr ([Some (''f1'', [0]), None, Some (''f3'', [2])], w3)"
    unfolding c2 by auto
  from r1 r2 show ?thesis by simp
qed


section \<open>Properties of the editor\<close>

lemmas parse_defs =
  py_int_def strip_def is_space_def py_unsigned_def digit_of_def int_max_str_digits_def

lemmas edit_defs =
  edit_all_def edit_all_bound_def IntInput_get_input_locale_while_def IntInput_get_input_def
  ColoredInput_get_def IntInput_init_def get_max_value_def clamp_value_def py_get_def py_set_def
  py_index_def Let_def

lemma get_input_line:
  "pending c = line # rest \<Longrightarrow>
   IntInput_get_input self dlg ps c =
     (let c1 = c\<lparr>pending := rest, shown := shown c @ [Prompt dlg ps]\<rparr> in
      if line = [] \<and> ii_default self \<noteq> None then Inr ((ii_default self, line), c1)
      else case py_int line of
             None \<Rightarrow> Inr ((None, line), c1)
           | Some i \<Rightarrow> Inr ((Some (clamp_value self i), line), c1))"
  by (simp add: IntInput_get_input_def ColoredInput_get_def Let_def)

lemma clamp_init:
  "clamp_value (IntInput_init dm mx mn dflt sg) i = max (min i (get_max_value dm mx sg)) mn"
  by (simp add: clamp_value_def IntInput_init_def)

lemma set_map_filter_iff:
  "y \<in> set (List.map_filter f xs) \<longleftrightarrow> (\<exists>x \<in> set xs. f x = Some y)"
  by (induction xs) (auto split: option.splits)

lemma map_pred_upt: "map ((\<lambda>i. i - 1) \<circ> int) [Suc 0..<Suc n] = map int [0..<n]"
  by (induction n) simp_all

lemma Max_insert_max:
  "finite A \<Longrightarrow> Max (insert (max m b) A) = Max (insert m (insert (b :: int) A))"
  by (cases "A = {}") (simp_all add: max.assoc)

lemma max_max_loop_Max:
  assumes "\<forall>ch \<in> set choices. py_index (length (max_values self)) ch \<noteq> None"
  shows "max_max_loop dm self choices m =
           Inr (Max (insert m (individual_bound dm self ` set choices)))"
  using assms
proof (induction choices arbitrary: m)
  case Nil
  show ?case by simp
next
  case (Cons ch choices)
  from Cons.prems obtain k where k: "py_index (length (max_values self)) ch = Some k"
    by auto
  have step: "max_max_loop dm self (ch # choices) m =
      max_max_loop dm self choices (max m (individual_bound dm self ch))"
    using k by (simp add: py_get_def individual_bound_def split: option.splits)
  from Cons.prems have "\<forall>ch \<in> set choices. py_index (length (max_values self)) ch \<noteq> None"
    by simp
  from Cons.IH[OF this] step show ?case
    by (simp add: Max_insert_max)
qed

subsection \<open>Default fallback\<close>

text \<open>
  Claim C9. For every \<^verbatim>\<open>IntInput\<close> with a default value, the empty input string returns the
  default unchanged: \<^verbatim>\<open>get_input\<close> (and so \<^verbatim>\<open>get_input_while\<close>) returns it without applying
  the clamp, whatever \<^verbatim>\<open>min\<close> and \<^verbatim>\<open>max\<close> are, also when the default lies outside them.
\<close>

theorem default_fallback:
  assumes "ii_default self = Some dv" and "pending c = [] # rest"
  shows "IntInput_get_input self dlg ps c =
           Inr ((Some dv, []), c\<lparr>pending := rest, shown := shown c @ [Prompt dlg ps]\<rparr>)
       \<and> IntInput_get_input_while self dlg ps c =
           Inr (Some dv, c\<lparr>pending := rest, shown := shown c @ [Prompt dlg ps]\<rparr>)"
proof -
  from assms have g: "IntInput_get_input self dlg ps c =
           Inr ((Some dv, []), c\<lparr>pending := rest, shown := shown c @ [Prompt dlg ps]\<rparr>)"
    by (simp add: get_input_line)
  then have "IntInput_get_input_while self dlg ps c =
           Inr (Some dv, c\<lparr>pending := rest, shown := shown c @ [Prompt dlg ps]\<rparr>)"
    by (subst IntInput_get_input_while.simps) simp
  with g show ?thesis by simp
qed

theorem default_fallback_witness:
  "ii_default (IntInput_init False (Some 3) 0 (Some 5) True) = Some 5
   \<and> ii_max (IntInput_init False (Some 3) 0 (Some 5) True) = 3
   \<and> pending \<lparr>pending = ['''', ''7''], shown = []\<rparr> = [] # [''7'']
   \<and> IntInput_get_input (IntInput_init False (Some 3) 0 (Some 5) True) ''input'' []
        \<lparr>pending = ['''', ''7''], shown = []\<rparr>
      = Inr ((Some 5, ''''), \<lparr>pending = [''7''], shown = [Prompt ''input'' []]\<rparr>)
   \<and> IntInput_get_input_while (IntInput_init False None 0 (Some 5) True) ''input'' []
        \<lparr>pending = ['''', ''7''], shown = []\<rparr>
      = Inr (Some 5, \<lparr>pending = [''7''], shown = [Prompt ''input'' []]\<rparr>)"
  using default_fallback [of "IntInput_init False (Some 3) 0 (Some 5) True" 5
          "\<lparr>pending = ['''', ''7''], shown = []\<rparr>" "[''7'']" "''input''" "[]"]
        default_fallback [of "IntInput_init False None 0 (Some 5) True" 5
          "\<lparr>pending = ['''', ''7''], shown = []\<rparr>" "[''7'']" "''input''" "[]"]
  by (simp add: IntInput_init_def get_max_value_def)

subsection \<open>Clamping\<close>

lemma py_int_Nil: "py_int [] = None"
  by (simp add: py_int_def strip_def)

lemma py_int_separators:
  "py_int [CHR 0x1C, CHR ''9''] = None"
  "py_int [CHR 0x1F, CHR ''9''] = None"
  "py_int [CHR 0xA0, CHR ''9'', CHR 0x85] = Some 9"
  "py_int [CHR 0x09, CHR ''-'', CHR ''9'', CHR 0x0D] = Some (- 9)"
  by (simp_all add: parse_defs)

lemma py_unsigned_limit:
  "int_max_str_digits < length (filter (\<lambda>ch. digit_of ch \<noteq> None) s) \<Longrightarrow> py_unsigned s = None"
  by (auto simp: py_unsigned_def split: list.splits option.splits)

text \<open>
  Claim C4, as amended. An \<^verbatim>\<open>IntInput\<close> constructed with \<^verbatim>\<open>min=1\<close> and \<^verbatim>\<open>max=10\<close> has the upper
  bound 10 when the setting \<^verbatim>\<open>DISABLE_MAXES\<close> is off, and the signed or unsigned limit when it
  is on. An input that \<^verbatim>\<open>int\<close> parses is clamped into the range from 1 to that bound and
  accepted; with the setting off the inputs -5, 0, 1, 10, 11, 999 yield 1, 1, 1, 10, 10,
  10. An input that \<^verbatim>\<open>int\<close> refuses yields no value: \<^verbatim>\<open>get_input\<close> returns \<open>None\<close> for it, and
  \<^verbatim>\<open>get_input_while\<close> prompts again unless the input is \<^verbatim>\<open>q\<close>, which ends the loop with
  \<open>None\<close>. The one exception is the empty input of an \<^verbatim>\<open>IntInput\<close> that has a default: it
  returns the default.
\<close>

theorem int_input_clamp:
  "get_max_value False (Some 10) sg = 10
   \<and> get_max_value True (Some 10) sg = (if sg then 2 ^ 31 - 1 else 2 ^ 32 - 1)
   \<and> (py_int line = Some i \<and> pending c = line # rest \<longrightarrow>
      IntInput_get_input (IntInput_init dm (Some 10) 1 dflt sg) dlg ps c =
        Inr ((Some (max (min i (get_max_value dm (Some 10) sg)) 1), line),
             c\<lparr>pending := rest, shown := shown c @ [Prompt dlg ps]\<rparr>)
      \<and> 1 \<le> max (min i (get_max_value dm (Some 10) sg)) 1
      \<and> max (min i (get_max_value dm (Some 10) sg)) 1 \<le> get_max_value dm (Some 10) sg
      \<and> IntInput_get_input_while (IntInput_init dm (Some 10) 1 dflt sg) dlg ps c =
        Inr (Some (max (min i (get_max_value dm (Some 10) sg)) 1),
             c\<lparr>pending := rest, shown := shown c @ [Prompt dlg ps]\<rparr>))
   \<and> (py_int line = None \<and> (line \<noteq> [] \<or> dflt = None) \<and> pending c = line # rest \<longrightarrow>
      IntInput_get_input (IntInput_init dm (Some 10) 1 dflt sg) dlg ps c =
        Inr ((None, line), c\<lparr>pending := rest, shown := shown c @ [Prompt dlg ps]\<rparr>)
      \<and> IntInput_get_input_while (IntInput_init dm (Some 10) 1 dflt sg) dlg ps c =
          (if line = ''q''
           then Inr (None, c\<lparr>pending := rest, shown := shown c @ [Prompt dlg ps]\<rparr>)
           else IntInput_get_input_while (IntInput_init dm (Some 10) 1 dflt sg) dlg ps
                  (c\<lparr>pending := rest, shown := shown c @ [Prompt dlg ps]\<rparr>)))
   \<and> (pending c = [] # rest \<longrightarrow>
      IntInput_get_input (IntInput_init dm (Some 10) 1 (Some dv) sg) dlg ps c =
        Inr ((Some dv, []), c\<lparr>pending := rest, shown := shown c @ [Prompt dlg ps]\<rparr>))
   \<and> map (\<lambda>l. map_sum id (fst \<circ> fst)
               (IntInput_get_input (IntInput_init False (Some 10) 1 dflt sg) dlg ps
                  \<lparr>pending = [l], shown = []\<rparr>))
         [''-5'', ''0'', ''1'', ''10'', ''11'', ''999'', ''abc'', [CHR 0x1C, CHR ''9'']]
       = [Inr (Some 1), Inr (Some 1), Inr (Some 1), Inr (Some 10), Inr (Some 10), Inr (Some 10),
          Inr None, Inr None]"
proof -
  let ?self = "IntInput_init dm (Some 10) 1 dflt sg"
  let ?c1 = "c\<lparr>pending := rest, shown := shown c @ [Prompt dlg ps]\<rparr>"
  let ?v = "max (min i (get_max_value dm (Some 10) sg)) 1"
  have m0: "get_max_value False (Some 10) sg = 10"
    by (simp add: get_max_value_def)
  have m1: "get_max_value True (Some 10) sg = (if sg then 2 ^ 31 - 1 else 2 ^ 32 - 1)"
    by (simp add: get_max_value_def)
  have d: "ii_default (IntInput_init dm' (Some 10) 1 dflt' sg) = dflt'" for dm' dflt'
    by (simp add: IntInput_init_def)
  have r: "1 \<le> ?v \<and> ?v \<le> get_max_value dm (Some 10) sg"
    by (cases dm) (auto simp: get_max_value_def)
  have p1: "IntInput_get_input ?self dlg ps c = Inr ((Some ?v, line), ?c1)"
    if "py_int line = Some i" "pending c = line # rest"
  proof -
    from that(1) have "line \<noteq> []" using py_int_Nil by auto
    with that show ?thesis by (simp add: get_input_line clamp_init)
  qed
  have p2: "IntInput_get_input_while ?self dlg ps c = Inr (Some ?v, ?c1)"
    if "py_int line = Some i" "pending c = line # rest"
    using p1[OF that] by (subst IntInput_get_input_while.simps) simp
  have n1: "IntInput_get_input ?self dlg ps c = Inr ((None, line), ?c1)"
    if "py_int line = None" "line \<noteq> [] \<or> dflt = None" "pending c = line # rest"
    using that d by (auto simp: get_input_line)
  have n2: "IntInput_get_input_while ?self dlg ps c =
          (if line = ''q'' then Inr (None, ?c1) else IntInput_get_input_while ?self dlg ps ?c1)"
    if "py_int line = None" "line \<noteq> [] \<or> dflt = None" "pending c = line # rest"
    using n1[OF that] by (subst IntInput_get_input_while.simps) simp
  have e: "IntInput_get_input (IntInput_init dm (Some 10) 1 (Some dv) sg) dlg ps c =
        Inr ((Some dv, []), ?c1)" if "pending c = [] # rest"
    using that by (simp add: get_input_line d)
  have ex: "map (\<lambda>l. map_sum id (fst \<circ> fst)
               (IntInput_get_input (IntInput_init False (Some 10) 1 dflt sg) dlg ps
                  \<lparr>pending = [l], shown = []\<rparr>))
         [''-5'', ''0'', ''1'', ''10'', ''11'', ''999'', ''abc'', [CHR 0x1C, CHR ''9'']]
       = [Inr (Some 1), Inr (Some 1), Inr (Some 1), Inr (Some 10), Inr (Some 10), Inr (Some 10),
          Inr None, Inr None]"
    by (simp add: get_input_line clamp_init m0 parse_defs)
  from m0 m1 r p1 p2 n1 n2 e ex show ?thesis by blast
qed

theorem int_input_clamp_witness:
  "py_int ''11'' = Some 11
   \<and> pending \<lparr>pending = [''11''], shown = []\<rparr> = ''11'' # []
   \<and> IntInput_get_input (IntInput_init False (Some 10) 1 None True) ''input'' []
        \<lparr>pending = [''11''], shown = []\<rparr>
      = Inr ((Some 10, ''11''), \<lparr>pending = [], shown = [Prompt ''input'' []]\<rparr>)
   \<and> py_int ''abc'' = None
   \<and> pending \<lparr>pending = [''abc'', ''q''], shown = []\<rparr> = ''abc'' # [''q'']
   \<and> IntInput_get_input (IntInput_init False (Some 10) 1 (Some 5) True) ''input'' []
        \<lparr>pending = [''abc'', ''q''], shown = []\<rparr>
      = Inr ((None, ''abc''), \<lparr>pending = [''q''], shown = [Prompt ''input'' []]\<rparr>)
   \<and> pending \<lparr>pending = [[], ''q''], shown = []\<rparr> = [] # [''q'']
   \<and> IntInput_get_input (IntInput_init False (Some 10) 1 (Some 50) True) ''input'' []
        \<lparr>pending = [[], ''q''], shown = []\<rparr>
      = Inr ((Some 50, []), \<lparr>pending = [''q''], shown = [Prompt ''input'' []]\<rparr>)"
proof -
  have a: "py_int ''11'' = Some 11" and b: "py_int ''abc'' = None"
    by (simp_all add: parse_defs)
  from a b
    int_input_clamp [where line = "''11''" and i = 11 and dm = False and sg = True
      and dflt = None
      and c = "\<lparr>pending = [''11''], shown = []\<rparr>" and rest = "[]" and dlg = "''input''"
      and ps = "[]"]
    int_input_clamp [where line = "''abc''" and dm = False and sg = True
      and dflt = "Some 5"
      and c = "\<lparr>pending = [''abc'', ''q''], shown = []\<rparr>" and rest = "[''q'']"
      and dlg = "''input''" and ps = "[]"]
    int_input_clamp [where dm = False and sg = True and dv = 50
      and c = "\<lparr>pending = [[], ''q''], shown = []\<rparr>" and rest = "[''q'']"
      and dlg = "''input''" and ps = "[]"]
  show ?thesis by simp
qed

text \<open>
  The claim as stated, for every \<^verbatim>\<open>IntInput\<close> constructed with \<^verbatim>\<open>min=1\<close> and \<^verbatim>\<open>max=10\<close>, fails
  when \<^verbatim>\<open>DISABLE_MAXES\<close> is on: the input 11 then yields 11, not 10.
\<close>

theorem int_input_clamp_counterexample:
  "map_sum id (fst \<circ> fst)
     (IntInput_get_input (IntInput_init True (Some 10) 1 None True) ''input'' []
        \<lparr>pending = [''11''], shown = []\<rparr>) = Inr (Some 11)
   \<and> (11 :: int) \<noteq> 10"
  by (simp add: get_input_line clamp_value_def IntInput_init_def get_max_value_def parse_defs)

subsection \<open>Choice sentinel\<close>

text \<open>
  Claim C5. In multi-choice mode \<^verbatim>\<open>multiple_choice\<close> returns the empty selection for 0 items
  and the single item (index 0) for exactly 1 item, both without prompting: the console and
  the store are unchanged. With n \<ge> 2 items, an input line one of whose tokens is the
  number n + 1, the entry of the rendered menu one past the last item, returns all indices
  0 to n - 1 with \<open>all_at_once\<close> true; the list \<^verbatim>\<open>self.strings\<close> has grown by the menu entry
  \<^verbatim>\<open>all_at_once\<close>, and so has \<^verbatim>\<open>self.items\<close> when it is the same list object. With 3 items the
  input \<^verbatim>\<open>4\<close> gives the indices 0, 1, 2 and true.
\<close>

theorem choice_input_contract:
  "(st (strings self) = [] \<longrightarrow> multiple_choice self st c = Inr (([], False), st, c))
   \<and> (length (st (strings self)) = 1 \<longrightarrow>
        multiple_choice self st c = Inr (([0], False), st, c))
   \<and> (2 \<le> length (st (strings self)) \<and> \<not> is_single_choice self \<and> pending c = line # rest
        \<and> (\<exists>tok \<in> set (py_split CHR '' '' line).
              py_int tok = Some (int (length (st (strings self))) + 1)) \<longrightarrow>
        multiple_choice self st c =
          Inr ((map int [0..<length (st (strings self))], True),
               st(strings self := st (strings self) @ [''all_at_once'']),
               c\<lparr>pending := rest,
                 shown := shown c @
                   [Menu (dialog self) (st (strings self) @ [''all_at_once'']),
                    Prompt ''input_many''
                      [(''min'', IntP 1),
                       (''max'', IntP (int (length (st (strings self))) + 1))]]\<rparr>))
   \<and> map_sum id fst
        (multiple_choice
           \<lparr>items = 0, strings = 1, ints = [], perameters = [], dialog = ''select'',
            is_single_choice = False\<rparr>
           (\<lambda>r. [''a'', ''b'', ''c''])
           \<lparr>pending = [''4''], shown = []\<rparr>)
       = Inr ([0, 1, 2], True)"
proof -
  let ?n = "length (st (strings self))"
  have z: "multiple_choice self st c = Inr (([], False), st, c)" if "st (strings self) = []"
    using that by (simp add: multiple_choice_def ChoiceInput_get_input_locale_def)
  have o: "multiple_choice self st c = Inr (([0], False), st, c)" if "?n = 1"
    using that by (simp add: multiple_choice_def ChoiceInput_get_input_locale_def)
  have m: "multiple_choice self st c =
          Inr ((map int [0..<?n], True),
               st(strings self := st (strings self) @ [''all_at_once'']),
               c\<lparr>pending := rest,
                 shown := shown c @
                   [Menu (dialog self) (st (strings self) @ [''all_at_once'']),
                    Prompt ''input_many''
                      [(''min'', IntP 1), (''max'', IntP (int ?n + 1))]]\<rparr>)"
    if "2 \<le> ?n" "\<not> is_single_choice self" "pending c = line # rest"
       "\<exists>tok \<in> set (py_split CHR '' '' line). py_int tok = Some (int ?n + 1)"
  proof -
    from that(4) have mem: "1 + int ?n \<in> set (List.map_filter py_int (py_split CHR '' '' line))"
      by (simp add: set_map_filter_iff add.commute)
    from that(1) have ne: "?n \<noteq> Suc 0" by simp
    from that(1) have ne': "st (strings self) \<noteq> []" by auto
    show ?thesis
      using that(2,3) mem ne ne'
      by (simp add: multiple_choice_def ChoiceInput_get_input_locale_def ColoredInput_get_def
          Let_def map_pred_upt add.commute del: upt_Suc)
  qed
  have ex: "map_sum id fst
        (multiple_choice
           \<lparr>items = 0, strings = 1, ints = [], perameters = [], dialog = ''select'',
            is_single_choice = False\<rparr>
           (\<lambda>r. [''a'', ''b'', ''c''])
           \<lparr>pending = [''4''], shown = []\<rparr>)
       = Inr ([0, 1, 2], True)"
    by (simp add: multiple_choice_def ChoiceInput_get_input_locale_def ColoredInput_get_def
        Let_def parse_defs upt_rec)
  from z o m ex show ?thesis by blast
qed

text \<open>
  The witness takes \<^verbatim>\<open>items\<close> and \<^verbatim>\<open>strings\<close> to be one list object, as \<^verbatim>\<open>edit_enigma\<close> passes
  them: after the sentinel the list behind both has the fourth entry.
\<close>

theorem choice_input_contract_witness:
  "multiple_choice
      \<lparr>items = 0, strings = 0, ints = [], perameters = [], dialog = ''select'',
       is_single_choice = False\<rparr> (\<lambda>r. []) \<lparr>pending = [''1''], shown = []\<rparr>
     = Inr (([], False), (\<lambda>r. []), \<lparr>pending = [''1''], shown = []\<rparr>)
   \<and> multiple_choice
      \<lparr>items = 0, strings = 0, ints = [], perameters = [], dialog = ''select'',
       is_single_choice = False\<rparr> (\<lambda>r. [''a'']) \<lparr>pending = [''1''], shown = []\<rparr>
     = Inr (([0], False), (\<lambda>r. [''a'']), \<lparr>pending = [''1''], shown = []\<rparr>)
   \<and> py_int ''4'' = Some 4
   \<and> ''4'' \<in> set (py_split CHR '' '' ''x 4'')
   \<and> map_sum id (\<lambda>(r, st, c). (r, st 0, c))
       (multiple_choice
          \<lparr>items = 0, strings = 0, ints = [], perameters = [], dialog = ''select'',
           is_single_choice = False\<rparr>
          (\<lambda>r. [''a'', ''b'', ''c'']) \<lparr>pending = [''x 4'', ''2''], shown = []\<rparr>)
     = Inr (([0, 1, 2], True), [''a'', ''b'', ''c'', ''all_at_once''],
         \<lparr>pending = [''2''],
          shown = [Menu ''select'' [''a'', ''b'', ''c'', ''all_at_once''],
                   Prompt ''input_many'' [(''min'', IntP 1), (''max'', IntP 4)]]\<rparr>)"
proof -
  have a: "py_int ''4'' = Some 4" by (simp add: parse_defs)
  have b: "''4'' \<in> set (py_split CHR '' '' ''x 4'')" by simp
  from a b have h: "\<exists>tok \<in> set (py_split CHR '' '' ''x 4''). py_int tok = Some 4"
    by blast
  from a b h
    choice_input_contract [where self = "\<lparr>items = 0, strings = 0, ints = [], perameters = [],
      dialog = ''select'', is_single_choice = False\<rparr>" and st = "\<lambda>r. []"
      and c = "\<lparr>pending = [''1''], shown = []\<rparr>"]
    choice_input_contract [where self = "\<lparr>items = 0, strings = 0, ints = [],
      perameters = [], dialog = ''select'', is_single_choice = False\<rparr>"
      and st = "\<lambda>r. [''a'']" and c = "\<lparr>pending = [''1''], shown = []\<rparr>"]
    choice_input_contract [where self = "\<lparr>items = 0, strings = 0, ints = [],
      perameters = [], dialog = ''select'', is_single_choice = False\<rparr>"
      and st = "\<lambda>r. [''a'', ''b'', ''c'']"
      and c = "\<lparr>pending = [''x 4'', ''2''], shown = []\<rparr>"
      and line = "''x 4''" and rest = "[''2'']"]
  show ?thesis by (simp add: upt_rec)
qed

subsection \<open>Cumulative edit-all\<close>

lemma py_index_nonneg: "0 \<le> ch \<Longrightarrow> ch < int n \<Longrightarrow> py_index n ch = Some (nat ch)"
  by (simp add: py_index_def)

lemma get_input_while_parsed:
  assumes "py_int line = Some u" and "pending c = line # rest"
  shows "IntInput_get_input_while self dlg ps c =
     Inr (Some (clamp_value self u), c\<lparr>pending := rest, shown := shown c @ [Prompt dlg ps]\<rparr>)"
proof -
  from assms(1) have "line \<noteq> []" using py_int_Nil by auto
  with assms have "IntInput_get_input self dlg ps c =
     Inr ((Some (clamp_value self u), line),
          c\<lparr>pending := rest, shown := shown c @ [Prompt dlg ps]\<rparr>)"
    by (simp add: get_input_line)
  then show ?thesis
    by (subst IntInput_get_input_while.simps) simp
qed

lemma apply_all_eq:
  assumes "length (max_values self) = n" and "length (me_items self) = n"
    and "length (me_ints self) = n"
    and "\<forall>ch \<in> set choices. 0 \<le> ch \<and> ch < int n"
  shows "apply_all dm v choices self c =
     Inr (self\<lparr>me_ints :=
            map (\<lambda>j. if int j \<in> set choices
                      then min v (get_max_value dm (max_values self ! j) (me_signed self))
                      else me_ints self ! j) [0..<n]\<rparr>,
          c\<lparr>shown := shown c @
            map (\<lambda>ch. Changed (me_items self ! nat ch)
                   (min v (get_max_value dm (max_values self ! nat ch) (me_signed self))))
              choices\<rparr>)"
  using assms
proof (induction choices arbitrary: self c)
  case Nil
  from Nil.prems(3) have "map ((!) (me_ints self)) [0..<n] = me_ints self"
    using map_nth[of "me_ints self"] by simp
  then show ?case by simp
next
  case (Cons ch choices)
  let ?f = "\<lambda>j. min v (get_max_value dm (max_values self ! j) (me_signed self))"
  let ?self1 = "self\<lparr>me_ints := (me_ints self)[nat ch := ?f (nat ch)]\<rparr>"
  let ?c1 = "c\<lparr>shown := shown c @ [Changed (me_items self ! nat ch) (?f (nat ch))]\<rparr>"
  from Cons.prems have r: "0 \<le> ch" "ch < int n" by simp_all
  have step: "apply_all dm v (ch # choices) self c = apply_all dm v choices ?self1 ?c1"
    using Cons.prems(1,2,3) r by (simp add: py_get_def py_set_def py_index_nonneg Let_def)
  have ih: "apply_all dm v choices ?self1 ?c1 =
     Inr (?self1\<lparr>me_ints :=
            map (\<lambda>j. if int j \<in> set choices then ?f j else me_ints ?self1 ! j) [0..<n]\<rparr>,
          ?c1\<lparr>shown := shown ?c1 @
            map (\<lambda>ch. Changed (me_items self ! nat ch) (?f (nat ch))) choices\<rparr>)"
    using Cons.IH[of ?self1 ?c1] Cons.prems by simp
  have ints: "map (\<lambda>j. if int j \<in> set choices then ?f j else me_ints ?self1 ! j) [0..<n]
      = map (\<lambda>j. if int j \<in> set (ch # choices) then ?f j else me_ints self ! j) [0..<n]"
  proof (rule map_cong[OF refl])
    fix j assume "j \<in> set [0..<n]"
    then have j: "j < length (me_ints self)" using Cons.prems(3) by simp
    show "(if int j \<in> set choices then ?f j else me_ints ?self1 ! j)
        = (if int j \<in> set (ch # choices) then ?f j else me_ints self ! j)"
    proof (cases "j = nat ch")
      case True
      with r j show ?thesis by simp
    next
      case False
      with r have "int j \<noteq> ch" by auto
      with False show ?thesis by simp
    qed
  qed
  show ?case
    unfolding step ih ints by simp
qed

lemma shared_bound_nonneg:
  "0 \<le> Max (insert 0 (individual_bound dm self ` set choices))
          div (if cumulative_max self then int (length choices) else 1)"
proof -
  have "(0 :: int) \<le> Max (insert 0 (individual_bound dm self ` set choices))"
    by (rule Max_ge) simp_all
  then show ?thesis
    by (simp add: pos_imp_zdiv_nonneg_iff div_int_pos_iff)
qed

text \<open>
  Claim C3, as amended. In \<^verbatim>\<open>edit_all\<close> the shared bound offered to the user is the maximum of
  0 and the selected fields' individual bounds, floor-divided by the number of selected
  fields when \<^verbatim>\<open>cumulative_max\<close> is set. With \<^verbatim>\<open>DISABLE_MAXES\<close> off the entered value is
  clamped into the range from 0 to that bound (to the signed limit 2147483647 when the bound
  exceeds it), so that an entry at or above a bound within that limit ends at the bound, and every
  selected field is set to the smaller of the clamped value and its own max (the signed or
  unsigned limit when it has none); the other fields keep their value. For two fields with the maxes 100 and
  50, both selected, with \<^verbatim>\<open>cumulative_max\<close> set, the bound is 100 // 2 = 50: the prompt shows
  50, and entering 60 leaves both fields equal to 50. With \<^verbatim>\<open>DISABLE_MAXES\<close> on neither the
  bound nor the own maxes are applied: the entry is only clamped into the signed range.
\<close>

theorem edit_all_shared_bound:
  assumes "length (max_values self) = length (me_ints self)"
    and "length (me_items self) = length (me_ints self)"
    and "\<forall>ch \<in> set choices. 0 \<le> ch \<and> ch < int (length (me_ints self))"
    and "cumulative_max self \<longrightarrow> choices \<noteq> []"
    and "pending c = line # rest" and "py_int line = Some u"
  shows
    "(let b = Max (insert 0 (individual_bound dm self ` set choices))
                div (if cumulative_max self then int (length choices) else 1);
          v = max (min u (get_max_value dm (Some b) True)) 0;
          field = (\<lambda>j. min v (get_max_value dm (max_values self ! j) (me_signed self)));
          new_ints = map (\<lambda>j. if int j \<in> set choices then field j else me_ints self ! j)
                       [0..<length (me_ints self)]
      in edit_all_bound dm self choices = Inr b
       \<and> edit_all dm self choices c =
           Inr (new_ints, self\<lparr>me_ints := new_ints\<rparr>,
                c\<lparr>pending := rest,
                  shown := shown c @
                    Prompt (me_dialog self @ ''_all'')
                      [(''name'', StrP (group_name self)), (''max'', IntP b)]
                    # map (\<lambda>ch. Changed (me_items self ! nat ch) (field (nat ch))) choices\<rparr>)
       \<and> 0 \<le> b
       \<and> (\<not> dm \<longrightarrow> 0 \<le> v \<and> v \<le> b)
       \<and> (\<not> dm \<and> b \<le> u \<and> b < 2 ^ 31 \<longrightarrow> v = b)
       \<and> (dm \<longrightarrow> v = max (min u (2 ^ 31 - 1)) 0))
     \<and> map_sum id (\<lambda>(xs, s, c). (xs, shown c))
        (edit_all False
          \<lparr>me_items = [''a'', ''b''], me_strings = [''a'', ''b''], me_ints = [0, 0],
           max_values = [Some 100, Some 50], group_name = ''g'', me_dialog = ''input'',
           me_is_single_choice = False, me_signed = True, cumulative_max = True\<rparr> [0, 1]
          \<lparr>pending = [''60''], shown = []\<rparr>)
       = Inr ([50, 50],
              [Prompt ''input_all'' [(''name'', StrP ''g''), (''max'', IntP 50)],
               Changed ''a'' 50, Changed ''b'' 50])"
proof -
  define b where "b = Max (insert 0 (individual_bound dm self ` set choices))
                div (if cumulative_max self then int (length choices) else 1)"
  define v where "v = max (min u (get_max_value dm (Some b) True)) 0"
  define field where
    "field = (\<lambda>j. min v (get_max_value dm (max_values self ! j) (me_signed self)))"
  define new_ints where
    "new_ints = map (\<lambda>j. if int j \<in> set choices then field j else me_ints self ! j)
                       [0..<length (me_ints self)]"
  let ?c1 = "c\<lparr>pending := rest,
      shown := shown c @ [Prompt (me_dialog self @ ''_all'')
                      [(''name'', StrP (group_name self)), (''max'', IntP b)]]\<rparr>"
  have idx: "\<forall>ch \<in> set choices. py_index (length (max_values self)) ch \<noteq> None"
    using assms(1,3) by (simp add: py_index_nonneg)
  have bound: "edit_all_bound dm self choices = Inr b"
    using assms(4) by (simp add: edit_all_bound_def max_max_loop_Max[OF idx] b_def)
  have inp: "IntInput_get_input_locale_while (IntInput_init dm (Some b) 0 None True)
        (me_dialog self @ ''_all'') [(''name'', StrP (group_name self)), (''max'', IntP b)] c
      = Inr (Some v, ?c1)"
    using get_input_while_parsed[OF assms(6,5)]
    by (simp add: IntInput_get_input_locale_while_def clamp_init v_def)
  have app: "apply_all dm v choices self ?c1 =
      Inr (self\<lparr>me_ints := new_ints\<rparr>,
           ?c1\<lparr>shown := shown ?c1 @
              map (\<lambda>ch. Changed (me_items self ! nat ch) (field (nat ch))) choices\<rparr>)"
    using apply_all_eq[OF assms(1) assms(2) refl assms(3), of dm v ?c1]
    by (simp add: new_ints_def field_def)
  have run: "edit_all dm self choices c =
           Inr (new_ints, self\<lparr>me_ints := new_ints\<rparr>,
                c\<lparr>pending := rest,
                  shown := shown c @
                    Prompt (me_dialog self @ ''_all'')
                      [(''name'', StrP (group_name self)), (''max'', IntP b)]
                    # map (\<lambda>ch. Changed (me_items self ! nat ch) (field (nat ch))) choices\<rparr>)"
    by (simp add: edit_all_def bound inp app)
  have nn: "0 \<le> b"
    unfolding b_def by (rule shared_bound_nonneg)
  have off: "0 \<le> v \<and> v \<le> b" if "\<not> dm"
    using that nn by (auto simp: v_def get_max_value_def)
  have at: "v = b" if "\<not> dm" "b \<le> u" "b < 2 ^ 31"
    using that nn by (auto simp: v_def get_max_value_def)
  have on: "v = max (min u (2 ^ 31 - 1)) 0" if dm
    using that by (simp add: v_def get_max_value_def)
  let ?me = "\<lparr>me_items = [''a'', ''b''], me_strings = [''a'', ''b''], me_ints = [0, 0],
         max_values = [Some 100, Some 50], group_name = ''g'', me_dialog = ''input'',
         me_is_single_choice = False, me_signed = True, cumulative_max = True\<rparr>"
  have eb: "edit_all_bound False ?me [0, 1] = Inr 50"
    by (simp add: edit_all_bound_def py_get_def py_index_def)
  have ew: "IntInput_get_input_while (IntInput_init False (Some 50) 0 None True) ''input_all''
              [(''name'', StrP ''g''), (''max'', IntP 50)] \<lparr>pending = [''60''], shown = []\<rparr>
           = Inr (Some 50, \<lparr>pending = [],
                shown = [Prompt ''input_all'' [(''name'', StrP ''g''), (''max'', IntP 50)]]\<rparr>)"
    by (subst IntInput_get_input_while.simps) (simp add: edit_defs parse_defs)
  have ex: "map_sum id (\<lambda>(xs, s, c). (xs, shown c))
        (edit_all False ?me [0, 1] \<lparr>pending = [''60''], shown = []\<rparr>)
       = Inr ([50, 50],
              [Prompt ''input_all'' [(''name'', StrP ''g''), (''max'', IntP 50)],
               Changed ''a'' 50, Changed ''b'' 50])"
    by (simp add: edit_all_def eb ew IntInput_get_input_locale_while_def py_get_def py_set_def
        py_index_def get_max_value_def)
  from bound run nn off at on ex show ?thesis
    unfolding Let_def new_ints_def field_def v_def b_def
    by blast
qed

theorem edit_all_shared_bound_witness:
  "length (max_values
      \<lparr>me_items = [''a'', ''b''], me_strings = [''a'', ''b''], me_ints = [0, 0],
       max_values = [Some 100, Some 50], group_name = ''g'', me_dialog = ''input'',
       me_is_single_choice = False, me_signed = True, cumulative_max = True\<rparr>) = 2
   \<and> list_all (\<lambda>ch. 0 \<le> ch \<and> ch < 2) [0, 1 :: int]
   \<and> py_int ''60'' = Some 60
   \<and> edit_all_bound False
        \<lparr>me_items = [''a'', ''b''], me_strings = [''a'', ''b''], me_ints = [0, 0],
         max_values = [Some 100, Some 50], group_name = ''g'', me_dialog = ''input'',
         me_is_single_choice = False, me_signed = True, cumulative_max = True\<rparr> [0, 1]
       = Inr (Max {0, 100, 50} div 2)
   \<and> map_sum id fst
        (edit_all False
          \<lparr>me_items = [''a'', ''b''], me_strings = [''a'', ''b''], me_ints = [0, 0],
           max_values = [Some 100, Some 50], group_name = ''g'', me_dialog = ''input'',
           me_is_single_choice = False, me_signed = True, cumulative_max = True\<rparr> [0, 1]
          \<lparr>pending = [''60''], shown = []\<rparr>)
       = Inr [50, 50]
   \<and> map_sum id fst
        (edit_all True
          \<lparr>me_items = [''a'', ''b''], me_strings = [''a'', ''b''], me_ints = [0, 0],
           max_values = [Some 100, Some 50], group_name = ''g'', me_dialog = ''input'',
           me_is_single_choice = False, me_signed = True, cumulative_max = True\<rparr> [0, 1]
          \<lparr>pending = [''60''], shown = []\<rparr>)
       = Inr [60, 60]
   \<and> map_sum id fst
        (edit_all False
          \<lparr>me_items = [''a'', ''b'', ''c''], me_strings = [''a'', ''b'', ''c''],
           me_ints = [1, 2, 3], max_values = [Some 100, Some 50, Some 7], group_name = ''g'',
           me_dialog = ''input'', me_is_single_choice = False, me_signed = True,
           cumulative_max = False\<rparr> [0, 1]
          \<lparr>pending = [''70''], shown = []\<rparr>)
       = Inr [70, 50, 3]"
proof -
  let ?me = "\<lparr>me_items = [''a'', ''b''], me_strings = [''a'', ''b''], me_ints = [0, 0],
       max_values = [Some 100, Some 50], group_name = ''g'', me_dialog = ''input'',
       me_is_single_choice = False, me_signed = True, cumulative_max = True\<rparr>"
  let ?me3 = "\<lparr>me_items = [''a'', ''b'', ''c''], me_strings = [''a'', ''b'', ''c''],
           me_ints = [1, 2, 3], max_values = [Some 100, Some 50, Some 7], group_name = ''g'',
           me_dialog = ''input'', me_is_single_choice = False, me_signed = True,
           cumulative_max = False\<rparr>"
  have p: "py_int ''60'' = Some 60" and p7: "py_int ''70'' = Some 70"
    by (simp_all add: parse_defs)
  have i: "individual_bound dm ?me 0 = 100" "individual_bound dm ?me 1 = 50"
    "individual_bound dm ?me3 0 = 100" "individual_bound dm ?me3 1 = 50" for dm
    by (simp_all add: individual_bound_def py_get_def py_index_def)
  have a: "map_sum id fst (edit_all False ?me [0, 1] \<lparr>pending = [''60''], shown = []\<rparr>)
      = Inr [50, 50] \<and> edit_all_bound False ?me [0, 1] = Inr (Max {0, 100, 50} div 2)"
    using edit_all_shared_bound [where self = ?me and choices = "[0, 1]" and dm = False
        and c = "\<lparr>pending = [''60''], shown = []\<rparr>" and line = "''60''" and rest = "[]"
        and u = 60] p
    by (simp add: Let_def i get_max_value_def upt_rec)
  have b: "map_sum id fst (edit_all True ?me [0, 1] \<lparr>pending = [''60''], shown = []\<rparr>)
      = Inr [60, 60]"
    using edit_all_shared_bound [where self = ?me and choices = "[0, 1]" and dm = True
        and c = "\<lparr>pending = [''60''], shown = []\<rparr>" and line = "''60''" and rest = "[]"
        and u = 60] p
    by (simp add: Let_def i get_max_value_def upt_rec)
  have c: "map_sum id fst (edit_all False ?me3 [0, 1] \<lparr>pending = [''70''], shown = []\<rparr>)
      = Inr [70, 50, 3]"
    using edit_all_shared_bound [where self = ?me3 and choices = "[0, 1]" and dm = False
        and c = "\<lparr>pending = [''70''], shown = []\<rparr>" and line = "''70''" and rest = "[]"
        and u = 70] p7
    by (simp add: Let_def i get_max_value_def upt_rec)
  from p a b c show ?thesis by simp
qed

text \<open>
  The claim as stated (the minimum of the individual bounds, 25, and both fields at 25)
  fails on this input: the loop takes the maximum.
\<close>

theorem edit_all_min_counterexample:
  "edit_all_bound False
        \<lparr>me_items = [''a'', ''b''], me_strings = [''a'', ''b''], me_ints = [0, 0],
         max_values = [Some 100, Some 50], group_name = ''g'', me_dialog = ''input'',
         me_is_single_choice = False, me_signed = True, cumulative_max = True\<rparr> [0, 1]
     = Inr 50
   \<and> (50 :: int) \<noteq> min 100 50 div 2
   \<and> map_sum id fst
        (edit_all False
          \<lparr>me_items = [''a'', ''b''], me_strings = [''a'', ''b''], me_ints = [0, 0],
           max_values = [Some 100, Some 50], group_name = ''g'', me_dialog = ''input'',
           me_is_single_choice = False, me_signed = True, cumulative_max = True\<rparr> [0, 1]
          \<lparr>pending = [''30''], shown = []\<rparr>)
       = Inr [30, 30]
   \<and> [30, 30] \<noteq> [25, 25 :: int]"
proof -
  let ?me = "\<lparr>me_items = [''a'', ''b''], me_strings = [''a'', ''b''], me_ints = [0, 0],
         max_values = [Some 100, Some 50], group_name = ''g'', me_dialog = ''input'',
         me_is_single_choice = False, me_signed = True, cumulative_max = True\<rparr>"
  have b: "edit_all_bound False ?me [0, 1] = Inr 50"
    by (simp add: edit_all_bound_def py_get_def py_index_def)
  have w: "IntInput_get_input_while (IntInput_init False (Some 50) 0 None True) ''input_all''
              [(''name'', StrP ''g''), (''max'', IntP 50)] \<lparr>pending = [''30''], shown = []\<rparr>
           = Inr (Some 30, \<lparr>pending = [],
                shown = [Prompt ''input_all'' [(''name'', StrP ''g''), (''max'', IntP 50)]]\<rparr>)"
    by (subst IntInput_get_input_while.simps) (simp add: edit_defs parse_defs)
  have e: "map_sum id fst (edit_all False ?me [0, 1] \<lparr>pending = [''30''], shown = []\<rparr>)
       = Inr [30, 30]"
    by (simp add: edit_all_def b w IntInput_get_input_locale_while_def py_get_def py_set_def
        py_index_def get_max_value_def)
  from b e show ?thesis by simp
qed

section \<open>Properties of the codec\<close>

lemma byte_step:
  "ucast (ucast (x :: 'a::len word) :: byte) OR push_bit 8 (take_bit m (drop_bit 8 x))
     = take_bit (8 + m) x"
  by (rule bit_word_eqI) (auto simp: bit_simps)

lemma le_word_bytes_from:
  "le_word (map (\<lambda>k. ucast (drop_bit (8 * k) (w :: 'a::len word))) [j..<j + n])
     = take_bit (8 * n) (drop_bit (8 * j) w)"
proof (induction n arbitrary: j)
  case 0
  show ?case by (simp add: le_word_def)
next
  case (Suc n)
  have "[j..<j + Suc n] = j # [Suc j..<Suc j + n]"
    by (simp add: upt_rec)
  moreover have "drop_bit (8 * Suc j) w = drop_bit 8 (drop_bit (8 * j) w)"
    by (simp add: drop_bit_drop_bit add.commute)
  ultimately show ?case
    using Suc.IH[of "Suc j"] byte_step[of "drop_bit (8 * j) w" "8 * n"]
    by (simp add: le_word_def)
qed

lemma le_word_le_bytes:
  "LENGTH('a::len) \<le> 8 * n \<Longrightarrow> le_word (le_bytes n (w :: 'a word)) = w"
  using le_word_bytes_from[of w 0 n] by (simp add: le_bytes_def take_bit_word_eq_self)

lemma length_le_bytes [simp]: "length (le_bytes n w) = n"
  by (simp add: le_bytes_def)

lemma read_bytes_ok:
  assumes "drop (pos d) (data d) = bs @ rest" and "bs \<noteq> []"
  shows "read_bytes (length bs) d = Inr (bs, d\<lparr>pos := pos d + length bs\<rparr>)"
    and "drop (pos d + length bs) (data d) = rest"
proof -
  from assms have "length (drop (pos d) (data d)) = length bs + length rest" by simp
  with assms(2) have le: "pos d + length bs \<le> length (data d)" by (cases bs) auto
  have tk: "take (length bs) (drop (pos d) (data d)) = bs" using assms(1) by simp
  from le tk show "read_bytes (length bs) d = Inr (bs, d\<lparr>pos := pos d + length bs\<rparr>)"
    by (simp add: read_bytes_def)
  have "drop (pos d + length bs) (data d) = drop (length bs) (drop (pos d) (data d))"
    by (simp add: add.commute)
  with assms(1) show "drop (pos d + length bs) (data d) = rest" by simp
qed

lemma read_int_ok:
  assumes "drop (pos d) (data d) = le_bytes 4 (word_of_int v :: 32 word) @ rest"
    and "- (2 ^ 31) \<le> v" and "v < 2 ^ 31"
  shows "read_int d = Inr (v, d\<lparr>pos := pos d + 4\<rparr>)"
proof -
  have ne: "le_bytes 4 (word_of_int v :: 32 word) \<noteq> []"
    by (simp add: le_bytes_def upt_rec)
  have s: "sint (word_of_int v :: 32 word) = v"
    using assms(2,3) by (simp add: sint_sbintrunc' signed_take_bit_int_eq_self)
  from read_bytes_ok(1)[OF assms(1) ne] s show ?thesis
    by (simp add: read_int_def le_word_le_bytes)
qed

lemma read_byte_ok:
  assumes "drop (pos d) (data d) = le_bytes 1 (word_of_int v :: 8 word) @ rest"
    and "0 \<le> v" and "v < 256"
  shows "read_byte d = Inr (v, d\<lparr>pos := pos d + 1\<rparr>)"
proof -
  have ne: "le_bytes 1 (word_of_int v :: 8 word) \<noteq> []"
    by (simp add: le_bytes_def)
  have s: "uint (word_of_int v :: 8 word) = v"
    using assms(2,3) by (simp add: uint_word_of_int_eq take_bit_int_eq_self)
  from read_bytes_ok(1)[OF assms(1) ne] s show ?thesis
    by (simp add: read_byte_def le_word_le_bytes)
qed

lemma read_bool_ok:
  assumes "drop (pos d) (data d) = [if b then 1 else 0] @ rest"
  shows "read_bool d = Inr (b, d\<lparr>pos := pos d + 1\<rparr>)"
proof -
  from read_bytes_ok(1)[OF assms] show ?thesis
    by (simp add: read_bool_def le_word_def)
qed

lemma read_double_ok:
  assumes "drop (pos d) (data d) = le_bytes 8 (v :: 64 word) @ rest"
  shows "read_double d = Inr (v, d\<lparr>pos := pos d + 8\<rparr>)"
proof -
  have ne: "le_bytes 8 v \<noteq> []"
    by (simp add: le_bytes_def upt_rec)
  from read_bytes_ok(1)[OF assms ne] show ?thesis
    by (simp add: read_double_def le_word_le_bytes)
qed

lemma drop_after:
  "drop p xs = bs @ rest \<Longrightarrow> drop (p + length bs) xs = rest"
  by (metis add.commute append_eq_conv_conj drop_drop)


lemma write_data [simp]:
  "data (write_bytes bs d) = data d @ bs"
  "data (write_int v d) = data d @ le_bytes 4 (word_of_int v :: 32 word)"
  "data (write_byte v d) = data d @ le_bytes 1 (word_of_int v :: 8 word)"
  "data (write_bool b d) = data d @ [if b then 1 else 0]"
  "data (write_double x d) = data d @ le_bytes 8 x"
  by (simp_all add: write_bytes_def write_int_def write_byte_def write_bool_def write_double_def)

lemma write_pos [simp]:
  "pos (write_bytes bs d) = pos d"
  "pos (write_int v d) = pos d"
  "pos (write_byte v d) = pos d"
  "pos (write_bool b d) = pos d"
  "pos (write_double x d) = pos d"
  by (simp_all add: write_bytes_def write_int_def write_byte_def write_bool_def write_double_def)

lemma Stage_bytes_eq:
  "Stage_bytes s =
     le_bytes 4 (word_of_int (level s) :: 32 word) @ le_bytes 4 (word_of_int (stage_id s) :: 32 word)
     @ le_bytes 1 (word_of_int (decoding_satus s) :: 8 word) @ le_bytes 8 (start_time s)"
  by (simp add: Stage_bytes_def Stage_write_def cursor_def)

lemma length_Stage_bytes [simp]: "length (Stage_bytes s) = 17"
  by (simp add: Stage_bytes_eq)

lemma Stage_write_data [simp]: "data (Stage_write s d) = data d @ Stage_bytes s"
  by (simp add: Stage_bytes_eq Stage_write_def)

lemma Stage_write_pos [simp]: "pos (Stage_write s d) = pos d"
  by (simp add: Stage_write_def)

lemma write_stages_data [simp]: "data (write_stages ss d) = data d @ concat (map Stage_bytes ss)"
  by (induction ss arbitrary: d) simp_all

lemma write_stages_pos [simp]: "pos (write_stages ss d) = pos d"
  by (induction ss arbitrary: d) simp_all

lemma Enigma_bytes_eq:
  "Enigma_bytes e =
     le_bytes 4 (word_of_int (energy_since_1 e) :: 32 word)
     @ le_bytes 4 (word_of_int (energy_since_2 e) :: 32 word)
     @ le_bytes 1 (word_of_int (enigma_level e) :: 8 word)
     @ le_bytes 1 (word_of_int (unknown_1 e) :: 8 word)
     @ [if unknown_2 e then 1 else 0]
     @ le_bytes 1 (word_of_int (int (length (stages e))) :: 8 word)
     @ concat (map Stage_bytes (stages e))"
  by (simp add: Enigma_bytes_def Enigma_write_def cursor_def)

lemma Enigma_write_data: "data (Enigma_write e d) = data d @ Enigma_bytes e"
  by (simp add: Enigma_bytes_eq Enigma_write_def)

lemma Enigma_write_pos [simp]: "pos (Enigma_write e d) = pos d"
  by (simp add: Enigma_write_def)

lemma length_concat_Stage_bytes [simp]:
  "length (concat (map Stage_bytes ss)) = 17 * length ss"
  by (induction ss) simp_all

lemma length_Enigma_bytes: "length (Enigma_bytes e) = 12 + 17 * length (stages e)"
  by (simp add: Enigma_bytes_eq)

lemma Stage_read_ok:
  assumes "drop (pos d) (data d) = Stage_bytes s @ rest" and "Stage_in_range s"
  shows "Stage_read d = Inr (s, d\<lparr>pos := pos d + 17\<rparr>)"
proof -
  let ?b1 = "le_bytes 4 (word_of_int (level s) :: 32 word)"
  let ?b2 = "le_bytes 4 (word_of_int (stage_id s) :: 32 word)"
  let ?b3 = "le_bytes 1 (word_of_int (decoding_satus s) :: 8 word)"
  let ?b4 = "le_bytes 8 (start_time s)"
  let ?d1 = "d\<lparr>pos := pos d + 4\<rparr>"
  let ?d2 = "d\<lparr>pos := pos d + 8\<rparr>"
  let ?d3 = "d\<lparr>pos := pos d + 9\<rparr>"
  from assms(2) have r:
    "- (2 ^ 31) \<le> level s" "level s < 2 ^ 31" "- (2 ^ 31) \<le> stage_id s" "stage_id s < 2 ^ 31"
    "0 \<le> decoding_satus s" "decoding_satus s < 256"
    by (simp_all add: Stage_in_range_def)
  from assms(1) have a1: "drop (pos d) (data d) = ?b1 @ (?b2 @ ?b3 @ ?b4 @ rest)"
    by (simp add: Stage_bytes_eq)
  from drop_after[OF a1] have a2: "drop (pos ?d1) (data ?d1) = ?b2 @ (?b3 @ ?b4 @ rest)"
    by (simp add: ac_simps)
  from drop_after[OF a2] have a3: "drop (pos ?d2) (data ?d2) = ?b3 @ (?b4 @ rest)"
    by (simp add: ac_simps)
  from drop_after[OF a3] have a4: "drop (pos ?d3) (data ?d3) = ?b4 @ rest"
    by (simp add: ac_simps)
  have s1: "read_int d = Inr (level s, ?d1)"
    using read_int_ok[OF a1 r(1,2)] .
  have s2: "read_int ?d1 = Inr (stage_id s, ?d2)"
    using read_int_ok[OF a2 r(3,4)] by simp
  have s3: "read_byte ?d2 = Inr (decoding_satus s, ?d3)"
    using read_byte_ok[OF a3 r(5,6)] by simp
  have s4: "read_double ?d3 = Inr (start_time s, d\<lparr>pos := pos d + 17\<rparr>)"
    using read_double_ok[OF a4] by simp
  show ?thesis
    by (simp add: Stage_read_def s1 s2 s3 s4)
qed

lemma read_stages_ok:
  assumes "drop (pos d) (data d) = concat (map Stage_bytes ss) @ rest"
    and "list_all Stage_in_range ss"
  shows "read_stages (length ss) d = Inr (ss, d\<lparr>pos := pos d + 17 * length ss\<rparr>)"
  using assms
proof (induction ss arbitrary: d)
  case Nil
  show ?case by simp
next
  case (Cons s ss)
  let ?d1 = "d\<lparr>pos := pos d + 17\<rparr>"
  from Cons.prems(1) have a: "drop (pos d) (data d) = Stage_bytes s @ (concat (map Stage_bytes ss) @ rest)"
    by simp
  from Cons.prems(2) have r: "Stage_in_range s" "list_all Stage_in_range ss" by simp_all
  from drop_after[OF a] have b: "drop (pos ?d1) (data ?d1) = concat (map Stage_bytes ss) @ rest"
    by simp
  from Stage_read_ok[OF a r(1)] Cons.IH[OF b r(2)] show ?case
    by (simp add: add.assoc)
qed

lemma Enigma_read_ok:
  assumes "drop (pos d) (data d) = Enigma_bytes e @ rest" and "Enigma_in_range e"
  shows "Enigma_read d = Inr (e, d\<lparr>pos := pos d + (12 + 17 * length (stages e))\<rparr>)"
proof -
  let ?b1 = "le_bytes 4 (word_of_int (energy_since_1 e) :: 32 word)"
  let ?b2 = "le_bytes 4 (word_of_int (energy_since_2 e) :: 32 word)"
  let ?b3 = "le_bytes 1 (word_of_int (enigma_level e) :: 8 word)"
  let ?b4 = "le_bytes 1 (word_of_int (unknown_1 e) :: 8 word)"
  let ?b5 = "[if unknown_2 e then 1 else 0 :: byte]"
  let ?b6 = "le_bytes 1 (word_of_int (int (length (stages e))) :: 8 word)"
  let ?b7 = "concat (map Stage_bytes (stages e))"
  let ?d1 = "d\<lparr>pos := pos d + 4\<rparr>"
  let ?d2 = "d\<lparr>pos := pos d + 8\<rparr>"
  let ?d3 = "d\<lparr>pos := pos d + 9\<rparr>"
  let ?d4 = "d\<lparr>pos := pos d + 10\<rparr>"
  let ?d5 = "d\<lparr>pos := pos d + 11\<rparr>"
  let ?d6 = "d\<lparr>pos := pos d + 12\<rparr>"
  from assms(2) have r:
    "- (2 ^ 31) \<le> energy_since_1 e" "energy_since_1 e < 2 ^ 31"
    "- (2 ^ 31) \<le> energy_since_2 e" "energy_since_2 e < 2 ^ 31"
    "0 \<le> enigma_level e" "enigma_level e < 256" "0 \<le> unknown_1 e" "unknown_1 e < 256"
    "0 \<le> int (length (stages e))" "int (length (stages e)) < 256"
    "list_all Stage_in_range (stages e)"
    by (simp_all add: Enigma_in_range_def)
  from assms(1) have a1: "drop (pos d) (data d) = ?b1 @ (?b2 @ ?b3 @ ?b4 @ ?b5 @ ?b6 @ ?b7 @ rest)"
    by (simp add: Enigma_bytes_eq)
  from drop_after[OF a1] have a2: "drop (pos ?d1) (data ?d1) = ?b2 @ (?b3 @ ?b4 @ ?b5 @ ?b6 @ ?b7 @ rest)"
    by (simp add: ac_simps)
  from drop_after[OF a2] have a3: "drop (pos ?d2) (data ?d2) = ?b3 @ (?b4 @ ?b5 @ ?b6 @ ?b7 @ rest)"
    by (simp add: ac_simps)
  from drop_after[OF a3] have a4: "drop (pos ?d3) (data ?d3) = ?b4 @ (?b5 @ ?b6 @ ?b7 @ rest)"
    by (simp add: ac_simps)
  from drop_after[OF a4] have a5: "drop (pos ?d4) (data ?d4) = ?b5 @ (?b6 @ ?b7 @ rest)"
    by (simp add: ac_simps)
  from drop_after[OF a5] have a6: "drop (pos ?d5) (data ?d5) = ?b6 @ (?b7 @ rest)"
    by (simp add: ac_simps)
  from drop_after[OF a6] have a7: "drop (pos ?d6) (data ?d6) = ?b7 @ rest"
    by (simp add: ac_simps)
  have s1: "read_int d = Inr (energy_since_1 e, ?d1)"
    using read_int_ok[OF a1 r(1,2)] .
  have s2: "read_int ?d1 = Inr (energy_since_2 e, ?d2)"
    using read_int_ok[OF a2 r(3,4)] by simp
  have s3: "read_byte ?d2 = Inr (enigma_level e, ?d3)"
    using read_byte_ok[OF a3 r(5,6)] by simp
  have s4: "read_byte ?d3 = Inr (unknown_1 e, ?d4)"
    using read_byte_ok[OF a4 r(7,8)] by simp
  have s5: "read_bool ?d4 = Inr (unknown_2 e, ?d5)"
    using read_bool_ok[OF a5] by simp
  have s6: "read_byte ?d5 = Inr (int (length (stages e)), ?d6)"
    using read_byte_ok[OF a6 r(9,10)] by simp
  have s7: "read_stages (length (stages e)) ?d6 =
      Inr (stages e, d\<lparr>pos := pos d + (12 + 17 * length (stages e))\<rparr>)"
    using read_stages_ok[OF a7 r(11)] by simp
  show ?thesis
    by (simp add: Enigma_read_def s1 s2 s3 s4 s5 s6 s7)
qed


lemma cursor_simps [simp]: "data (cursor bs) = bs" "pos (cursor bs) = 0"
  by (simp_all add: cursor_def)

lemma le_bytes_1: "le_bytes (Suc 0) (w :: byte) = [w]"
  by (simp add: le_bytes_def)

lemma count_byte: "Enigma_bytes e ! 11 = (of_nat (length (stages e)) :: byte)"
  by (simp add: Enigma_bytes_eq nth_append le_bytes_1)

lemma Stage_read_cursor:
  "Stage_in_range s \<Longrightarrow>
   Stage_read (cursor (Stage_bytes s)) = Inr (s, \<lparr>data = Stage_bytes s, pos = 17\<rparr>)"
  using Stage_read_ok[of "cursor (Stage_bytes s)" s "[]"] by (simp add: cursor_def)

lemma Enigma_read_cursor:
  "Enigma_in_range e \<Longrightarrow>
   Enigma_read (cursor (Enigma_bytes e)) =
     Inr (e, \<lparr>data = Enigma_bytes e, pos = 12 + 17 * length (stages e)\<rparr>)"
  using Enigma_read_ok[of "cursor (Enigma_bytes e)" e "[]"] by (simp add: cursor_def)

text \<open>Wrapping every field into its width does not change the bytes written.\<close>

lemma Stage_bytes_wrap:
  "Stage_bytes ((s :: Stage)\<lparr>level := sint (word_of_int (level s) :: 32 word),
                   stage_id := sint (word_of_int (stage_id s) :: 32 word),
                   decoding_satus := uint (word_of_int (decoding_satus s) :: 8 word)\<rparr>)
   = Stage_bytes s"
  by (simp add: Stage_bytes_eq)

lemma sint32_range:
  "- 2147483648 \<le> sint (w :: 32 word)" "sint (w :: 32 word) < 2147483648"
  using sint_ge[of w] sint_lt[of w] by simp_all

lemma uint8_range: "uint (w :: 8 word) < 256"
  using uint_lt2p[of w] by simp

lemma Stage_wrap_in_range:
  "Stage_in_range ((s :: Stage)\<lparr>level := sint (word_of_int (level s) :: 32 word),
                   stage_id := sint (word_of_int (stage_id s) :: 32 word),
                   decoding_satus := uint (word_of_int (decoding_satus s) :: 8 word)\<rparr>)"
  by (simp add: Stage_in_range_def sint32_range uint8_range)

lemma reencode_any:
  assumes "length (stages e) \<le> 255"
  shows "map_sum id (Enigma_bytes \<circ> fst) (Enigma_read (cursor (Enigma_bytes e)))
          = Inr (Enigma_bytes e)"
proof -
  define wrap where "wrap = (\<lambda>s :: Stage. s\<lparr>level := sint (word_of_int (level s) :: 32 word),
                   stage_id := sint (word_of_int (stage_id s) :: 32 word),
                   decoding_satus := uint (word_of_int (decoding_satus s) :: 8 word)\<rparr>)"
  define e' where "e' = e\<lparr>energy_since_1 := sint (word_of_int (energy_since_1 e) :: 32 word),
       energy_since_2 := sint (word_of_int (energy_since_2 e) :: 32 word),
       enigma_level := uint (word_of_int (enigma_level e) :: 8 word),
       unknown_1 := uint (word_of_int (unknown_1 e) :: 8 word),
       stages := map wrap (stages e)\<rparr>"
  have sb: "Stage_bytes (wrap s) = Stage_bytes s" for s
    unfolding wrap_def by (rule Stage_bytes_wrap)
  have same: "Enigma_bytes e' = Enigma_bytes e"
    by (simp add: e'_def Enigma_bytes_eq sb comp_def)
  have "list_all Stage_in_range (map wrap (stages e))"
    by (simp add: list_all_iff wrap_def Stage_wrap_in_range)
  with assms have "Enigma_in_range e'"
    by (simp add: Enigma_in_range_def e'_def sint32_range uint8_range)
  from Enigma_read_cursor[OF this] same show ?thesis
    by simp
qed

lemma reencode_any_stage:
  "map_sum id (Stage_bytes \<circ> fst) (Stage_read (cursor (Stage_bytes s))) = Inr (Stage_bytes s)"
proof -
  define s' where "s' = s\<lparr>level := sint (word_of_int (level s) :: 32 word),
                   stage_id := sint (word_of_int (stage_id s) :: 32 word),
                   decoding_satus := uint (word_of_int (decoding_satus s) :: 8 word)\<rparr>"
  have same: "Stage_bytes s' = Stage_bytes s"
    unfolding s'_def by (rule Stage_bytes_wrap)
  have "Stage_in_range s'"
    unfolding s'_def by (rule Stage_wrap_in_range)
  from Stage_read_cursor[OF this] same show ?thesis
    by simp
qed

subsection \<open>Round trip\<close>

text \<open>
  Claim C1, as amended. For every in-range \<^verbatim>\<open>Stage\<close> and \<^verbatim>\<open>Enigma\<close> record, reading what
  \<^verbatim>\<open>write\<close> produced gives the record back and consumes exactly the bytes written: from a
  fresh cursor over the bytes, and in place in any buffer the record was appended to. And
  for a byte buffer produced by writing a \<^verbatim>\<open>Stage\<close>, or an \<^verbatim>\<open>Enigma\<close> with at most 255 stages,
  reading it and writing the result gives the same bytes.
\<close>

theorem codec_round_trip:
  assumes "Stage_in_range s" and "Enigma_in_range e"
  shows "Stage_read (cursor (Stage_bytes s)) = Inr (s, \<lparr>data = Stage_bytes s, pos = 17\<rparr>)
     \<and> Enigma_read (cursor (Enigma_bytes e))
         = Inr (e, \<lparr>data = Enigma_bytes e, pos = length (Enigma_bytes e)\<rparr>)
     \<and> Stage_read ((Stage_write s d)\<lparr>pos := length (data d)\<rparr>)
         = Inr (s, (Stage_write s d)\<lparr>pos := length (data d) + 17\<rparr>)
     \<and> Enigma_read ((Enigma_write e d)\<lparr>pos := length (data d)\<rparr>)
         = Inr (e, (Enigma_write e d)\<lparr>pos := length (data d) + length (Enigma_bytes e)\<rparr>)
     \<and> map_sum id (Stage_bytes \<circ> fst) (Stage_read (cursor (Stage_bytes s)))
         = Inr (Stage_bytes s)
     \<and> map_sum id (Enigma_bytes \<circ> fst) (Enigma_read (cursor (Enigma_bytes e)))
         = Inr (Enigma_bytes e)
     \<and> map_sum id (Stage_bytes \<circ> fst) (Stage_read (cursor (Stage_bytes s2)))
         = Inr (Stage_bytes s2)
     \<and> (length (stages e2) \<le> 255 \<longrightarrow>
          map_sum id (Enigma_bytes \<circ> fst) (Enigma_read (cursor (Enigma_bytes e2)))
            = Inr (Enigma_bytes e2))"
proof -
  note a = Stage_read_cursor[OF assms(1)]
  note b = Enigma_read_cursor[OF assms(2)]
  have c: "Stage_read ((Stage_write s d)\<lparr>pos := length (data d)\<rparr>)
         = Inr (s, (Stage_write s d)\<lparr>pos := length (data d) + 17\<rparr>)"
    using Stage_read_ok[of "(Stage_write s d)\<lparr>pos := length (data d)\<rparr>" s "[]", OF _ assms(1)]
    by simp
  have d: "Enigma_read ((Enigma_write e d)\<lparr>pos := length (data d)\<rparr>)
         = Inr (e, (Enigma_write e d)\<lparr>pos := length (data d) + length (Enigma_bytes e)\<rparr>)"
    using Enigma_read_ok[of "(Enigma_write e d)\<lparr>pos := length (data d)\<rparr>" e "[]", OF _ assms(2)]
    by (simp add: Enigma_write_data length_Enigma_bytes)
  from a b c d reencode_any[of e2] reencode_any_stage[of s2] show ?thesis
    by (simp add: length_Enigma_bytes)
qed

theorem codec_round_trip_witness:
  "Stage_in_range \<lparr>level = 3, stage_id = 25001, decoding_satus = 2, start_time = 5\<rparr>
   \<and> Enigma_in_range
        \<lparr>energy_since_1 = - 1, energy_since_2 = 7, enigma_level = 255, unknown_1 = 0,
         unknown_2 = True,
         stages = [\<lparr>level = 3, stage_id = 25001, decoding_satus = 2, start_time = 5\<rparr>]\<rparr>
   \<and> Stage_read (cursor (Stage_bytes
          \<lparr>level = 3, stage_id = 25001, decoding_satus = 2, start_time = 5\<rparr>))
       = Inr (\<lparr>level = 3, stage_id = 25001, decoding_satus = 2, start_time = 5\<rparr>,
              \<lparr>data = Stage_bytes
                  \<lparr>level = 3, stage_id = 25001, decoding_satus = 2, start_time = 5\<rparr>,
               pos = 17\<rparr>)
   \<and> map_sum id fst (Enigma_read (cursor (Enigma_bytes
          \<lparr>energy_since_1 = - 1, energy_since_2 = 7, enigma_level = 255, unknown_1 = 0,
           unknown_2 = True,
           stages = [\<lparr>level = 3, stage_id = 25001, decoding_satus = 2, start_time = 5\<rparr>]\<rparr>)))
       = Inr \<lparr>energy_since_1 = - 1, energy_since_2 = 7, enigma_level = 255, unknown_1 = 0,
              unknown_2 = True,
              stages = [\<lparr>level = 3, stage_id = 25001, decoding_satus = 2, start_time = 5\<rparr>]\<rparr>
   \<and> length (stages (Enigma_init\<lparr>energy_since_1 := 2 ^ 40\<rparr>)) \<le> 255
   \<and> map_sum id (Enigma_bytes \<circ> fst)
         (Enigma_read (cursor (Enigma_bytes (Enigma_init\<lparr>energy_since_1 := 2 ^ 40\<rparr>))))
       = Inr (Enigma_bytes (Enigma_init\<lparr>energy_since_1 := 2 ^ 40\<rparr>))"
proof -
  let ?s = "\<lparr>level = 3, stage_id = 25001, decoding_satus = 2, start_time = 5\<rparr>"
  let ?e = "\<lparr>energy_since_1 = - 1, energy_since_2 = 7, enigma_level = 255, unknown_1 = 0,
         unknown_2 = True, stages = [?s]\<rparr>"
  have s: "Stage_in_range ?s" by (simp add: Stage_in_range_def)
  then have e: "Enigma_in_range ?e" by (simp add: Enigma_in_range_def)
  have l: "length (stages (Enigma_init\<lparr>energy_since_1 := 2 ^ 40\<rparr>)) \<le> 255"
    by (simp add: Enigma_init_def)
  from s e l codec_round_trip [OF s e, where ?e2.0 = "Enigma_init\<lparr>energy_since_1 := 2 ^ 40\<rparr>"]
  show ?thesis by simp
qed

text \<open>
  The claim as stated, for every byte buffer that a write produced, fails for the buffer
  written from an \<^verbatim>\<open>Enigma\<close> with 256 stages: its count byte is 0, so reading it yields the
  header with no stage, and writing that gives 12 bytes, not the 4364 that were read.
\<close>

theorem reencode_256_counterexample:
  "Enigma_bytes (Enigma_init\<lparr>stages := replicate 256 Stage_init\<rparr>) ! 11 = 0
   \<and> map_sum id (Enigma_bytes \<circ> fst)
        (Enigma_read (cursor (Enigma_bytes (Enigma_init\<lparr>stages := replicate 256 Stage_init\<rparr>))))
       = Inr (Enigma_bytes Enigma_init)
   \<and> length (Enigma_bytes Enigma_init) = 12
   \<and> length (Enigma_bytes (Enigma_init\<lparr>stages := replicate 256 Stage_init\<rparr>)) = 4364
   \<and> Enigma_bytes Enigma_init \<noteq> Enigma_bytes (Enigma_init\<lparr>stages := replicate 256 Stage_init\<rparr>)"
proof -
  let ?e = "Enigma_init\<lparr>stages := replicate 256 Stage_init\<rparr>"
  have c: "Enigma_bytes ?e ! 11 = 0"
    by (simp add: count_byte)
  have split: "Enigma_bytes ?e = Enigma_bytes Enigma_init @ concat (map Stage_bytes (replicate 256 Stage_init))"
    by (simp add: Enigma_bytes_eq Enigma_init_def le_bytes_1)
  have r: "Enigma_in_range Enigma_init"
    by (simp add: Enigma_in_range_def Enigma_init_def)
  have "Enigma_read (cursor (Enigma_bytes ?e)) =
      Inr (Enigma_init, (cursor (Enigma_bytes ?e))\<lparr>pos := 12\<rparr>)"
    using Enigma_read_ok[of "cursor (Enigma_bytes ?e)" Enigma_init
        "concat (map Stage_bytes (replicate 256 Stage_init))", OF _ r] split
    by (simp add: Enigma_init_def)
  then have rd: "map_sum id (Enigma_bytes \<circ> fst) (Enigma_read (cursor (Enigma_bytes ?e)))
      = Inr (Enigma_bytes Enigma_init)"
    by simp
  have l0: "length (Enigma_bytes Enigma_init) = 12"
    by (simp add: length_Enigma_bytes Enigma_init_def)
  have l1: "length (Enigma_bytes ?e) = 4364"
    by (simp add: length_Enigma_bytes)
  have ne: "Enigma_bytes Enigma_init \<noteq> Enigma_bytes ?e"
  proof
    assume "Enigma_bytes Enigma_init = Enigma_bytes ?e"
    then have "length (Enigma_bytes Enigma_init) = length (Enigma_bytes ?e)"
      by (rule arg_cong)
    with l0 l1 show False
      by simp
  qed
  from c rd l0 l1 ne show ?thesis by simp
qed

end
